theory Spec2Isabelle
  imports Complex_Main
begin

section \<open>Card sheets: the layout engine of mtg-pdf.py\<close>

text \<open>
  The script lays 63 x 88 mm card images out on pages of a PDF document.
  All lengths are Python floats in points. They are modelled here as exact rationals:
  the arithmetic of the program is kept, the rounding of IEEE doubles, their infinities
  and their NaN are not.
  Python's \<open>int\<close> is \<open>int\<close>; a raised exception is the \<open>Inl\<close> branch of a sum.
\<close>

subsection \<open>Units and constants\<close>

text \<open>
  \<open>reportlab.lib.units\<close> defines \<open>inch = 72.0\<close>, \<open>cm = inch / 2.54\<close> and
  \<open>mm = cm * 0.1\<close>; \<open>reportlab.lib.pagesizes\<close> defines \<open>A4 = (210*mm, 297*mm)\<close>,
  \<open>A3 = (297*mm, 420*mm)\<close> and \<open>LETTER = (8.5*inch, 11*inch)\<close>.
\<close>

definition inch :: rat where
  "inch = 72"

definition cm :: rat where
  "cm = inch / (254 / 100)"

definition mm :: rat where
  "mm = cm * (1 / 10)"

definition A4 :: "rat \<times> rat" where
  "A4 = (210 * mm, 297 * mm)"

definition A3 :: "rat \<times> rat" where
  "A3 = (297 * mm, 420 * mm)"

definition LETTER :: "rat \<times> rat" where
  "LETTER = ((85 / 10) * inch, 11 * inch)"

definition CARD_W_MM :: rat where
  "CARD_W_MM = 63"

definition CARD_H_MM :: rat where
  "CARD_H_MM = 88"

text \<open>
  The exceptions the script can raise: the two \<open>ValueError\<close>s of \<open>parse_custom_paper\<close>
  (the specification's \<open>InvalidPaperSpec\<close>), the \<open>ZeroDivisionError\<close> of a float floor
  division by zero, and the \<open>SystemExit\<close> of \<open>main\<close> on an empty folder.
\<close>

datatype error = InvalidPaperFormat | UnknownUnits | ZeroDivisionError | NoImages

datatype orientation = Auto | Portrait | Landscape

subsection \<open>The grid planner\<close>

text \<open>
  \<open>int(a // b)\<close> on floats: the floor of the quotient, or \<open>ZeroDivisionError\<close>. The
  quotient is the exact one; where it is an integer or within rounding of one, the doubles
  of the program can give the integer next to it.
\<close>

definition floordiv :: "rat \<Rightarrow> rat \<Rightarrow> error + int" where
  "floordiv a b = (if b = 0 then Inl ZeroDivisionError else Inr \<lfloor>a / b\<rfloor>)"

text \<open>
  The local function \<open>attempt(pw, ph)\<close> of \<open>compute_grid\<close>; \<open>margin_mm\<close> and \<open>gap_mm\<close>
  are the variables it closes over. It returns \<open>(rows, cols, x0, y0)\<close>.
\<close>

definition attempt :: "rat \<Rightarrow> rat \<Rightarrow> rat \<Rightarrow> rat \<Rightarrow> error + (int \<times> int \<times> rat \<times> rat)" where
  "attempt margin_mm gap_mm pw ph =
     (let usable_w = pw - 2 * margin_mm * mm;
          usable_h = ph - 2 * margin_mm * mm
      in case floordiv (usable_w + gap_mm * mm) (CARD_W_MM * mm + gap_mm * mm) of
           Inl e \<Rightarrow> Inl e
         | Inr qc \<Rightarrow>
            (case floordiv (usable_h + gap_mm * mm) (CARD_H_MM * mm + gap_mm * mm) of
               Inl e \<Rightarrow> Inl e
             | Inr qr \<Rightarrow>
                (let cols = max 1 qc;
                     rows = max 1 qr;
                     x0 = (pw - (of_int cols * CARD_W_MM * mm
                                 + of_int (cols - 1) * gap_mm * mm)) / 2;
                     y0 = (ph - (of_int rows * CARD_H_MM * mm
                                 + of_int (rows - 1) * gap_mm * mm)) / 2
                 in Inr (rows, cols, x0, y0))))"

text \<open>\<open>compute_grid\<close> returns \<open>(rows, cols, x0, y0, rotated)\<close>.\<close>

definition compute_grid ::
  "rat \<Rightarrow> rat \<Rightarrow> rat \<Rightarrow> rat \<Rightarrow> orientation \<Rightarrow> error + (int \<times> int \<times> rat \<times> rat \<times> bool)" where
  "compute_grid page_w page_h margin_mm gap_mm orient =
     (case orient of
        Portrait \<Rightarrow>
          (case attempt margin_mm gap_mm page_w page_h of
             Inl e \<Rightarrow> Inl e
           | Inr (rows, cols, x0, y0) \<Rightarrow> Inr (rows, cols, x0, y0, False))
      | Landscape \<Rightarrow>
          (case attempt margin_mm gap_mm page_h page_w of
             Inl e \<Rightarrow> Inl e
           | Inr (rows, cols, x0, y0) \<Rightarrow> Inr (rows, cols, x0, y0, True))
      | Auto \<Rightarrow>
          (case attempt margin_mm gap_mm page_w page_h of
             Inl e \<Rightarrow> Inl e
           | Inr (r1, c1, x1, y1) \<Rightarrow>
              (case attempt margin_mm gap_mm page_h page_w of
                 Inl e \<Rightarrow> Inl e
               | Inr (r2, c2, x2, y2) \<Rightarrow>
                  (let n1 = r1 * c1; n2 = r2 * c2
                   in if n2 > n1 then Inr (r2, c2, x2, y2, True)
                      else Inr (r1, c1, x1, y1, False)))))"

subsection \<open>Paper sizes\<close>

text \<open>
  The paper argument is a Python string, modelled as the list of its code points; the
  names of the images and of the output file are never looked into and stay HOL strings.
  \<open>codes\<close> gives the code points of an ASCII literal.
\<close>

type_synonym pystr = "int list"

definition codes :: "string \<Rightarrow> pystr" where
  "codes s = map of_char s"

text \<open>
  What the script uses of Unicode belongs to the Python runtime. White space and the
  letters that match the pattern under \<open>re.IGNORECASE\<close> are written out below in full, the
  decimal digits and \<open>str.lower\<close> up to U+00FF. Beyond that, two tables are parameters
  of the model: the decimal digits (category Nd: what \<open>\d\<close> matches and \<open>float\<close> converts,
  with their values), and \<open>str.lower\<close> on strings that hold a code point beyond U+00FF.
  Every statement below holds for all values of these tables.
\<close>

record unicode =
  u_decimal :: "int \<Rightarrow> int option"
  u_lower :: "pystr \<Rightarrow> pystr"

text \<open>
  \<open>str.isspace\<close>, which \<open>str.strip\<close> and \<open>\s\<close> use: the controls U+0009 to U+000D and
  U+001C to U+001F, the space, U+0085, U+00A0, U+1680, U+2000 to U+200A, U+2028, U+2029,
  U+202F, U+205F and U+3000.
\<close>

definition isspace :: "int \<Rightarrow> bool" where
  "isspace c \<longleftrightarrow>
     (9 \<le> c \<and> c \<le> 13) \<or> (28 \<le> c \<and> c \<le> 32) \<or> c = 133 \<or> c = 160 \<or> c = 5760 \<or>
     (8192 \<le> c \<and> c \<le> 8202) \<or> c = 8232 \<or> c = 8233 \<or> c = 8239 \<or> c = 8287 \<or> c = 12288"

text \<open>
  The value of a decimal digit. Up to U+00FF the digits are \<open>0\<close> to \<open>9\<close>; beyond, the
  table of the runtime decides, except that white space and the letters U+0130 and
  U+0131 are no digits, and that the value of a digit lies between 0 and 9.
\<close>

definition decimal :: "unicode \<Rightarrow> int \<Rightarrow> int option" where
  "decimal U c =
     (if 48 \<le> c \<and> c \<le> 57 then Some (c - 48)
      else if c < 256 \<or> isspace c \<or> c = 304 \<or> c = 305 then None
      else (case u_decimal U c of
              None \<Rightarrow> None
            | Some v \<Rightarrow> if 0 \<le> v \<and> v \<le> 9 then Some v else None))"

definition isdigit :: "unicode \<Rightarrow> int \<Rightarrow> bool" where
  "isdigit U c \<longleftrightarrow> decimal U c \<noteq> None"

text \<open>
  \<open>str.lower\<close>: up to U+00FF the capitals \<open>A\<close> to \<open>Z\<close> and U+00C0 to U+00DE (without the
  multiplication sign U+00D7) move up by 32 and nothing else changes.
\<close>

definition lower_latin1 :: "int \<Rightarrow> int" where
  "lower_latin1 c =
     (if (65 \<le> c \<and> c \<le> 90) \<or> (192 \<le> c \<and> c \<le> 222 \<and> c \<noteq> 215) then c + 32 else c)"

definition lower :: "unicode \<Rightarrow> pystr \<Rightarrow> pystr" where
  "lower U s = (if list_all (\<lambda>c. c < 256) s then map lower_latin1 s else u_lower U s)"

definition strip :: "pystr \<Rightarrow> pystr" where
  "strip s = rev (dropWhile isspace (rev (dropWhile isspace s)))"

text \<open>
  A letter of the pattern under \<open>re.IGNORECASE\<close>: it matches itself and its capital, and
  the letter \<open>i\<close> also matches U+0130 and U+0131. The letters of the pattern are \<open>x\<close>,
  \<open>m\<close>, \<open>c\<close>, \<open>i\<close> and \<open>n\<close>.
\<close>

definition icase :: "char \<Rightarrow> int \<Rightarrow> bool" where
  "icase p c \<longleftrightarrow>
     c = of_char p \<or> c = of_char p - 32 \<or> (p = CHR ''i'' \<and> (c = 304 \<or> c = 305))"

text \<open>
  The regular expression of \<open>parse_custom_paper\<close> is
  \<^verbatim>\<open>^\s*(\d+(?:\.\d+)?)\s*x\s*(\d+(?:\.\d+)?)(mm|cm|in)?\s*$\<close> with \<open>re.IGNORECASE\<close>.
  Its pieces start with characters of disjoint classes, so the greedy match is the only
  one and the matcher below reads the string from left to right without backtracking.
  \<open>re_number\<close> matches \<^verbatim>\<open>\d+(?:\.\d+)?\<close> at the head of a string and returns the
  matched text and the rest.
\<close>

definition re_number :: "unicode \<Rightarrow> pystr \<Rightarrow> (pystr \<times> pystr) option" where
  "re_number U s =
     (let ds = takeWhile (isdigit U) s; r = dropWhile (isdigit U) s
      in if ds = [] then None
         else (case r of
                 [] \<Rightarrow> Some (ds, r)
               | c # r' \<Rightarrow>
                  if c = of_char CHR ''.'' \<and> takeWhile (isdigit U) r' \<noteq> []
                  then Some (ds @ c # takeWhile (isdigit U) r', dropWhile (isdigit U) r')
                  else Some (ds, r)))"

text \<open>\<^verbatim>\<open>(mm|cm|in)?\<close>: the unit group (or \<open>None\<close>) and the rest.\<close>

definition re_unit :: "pystr \<Rightarrow> pystr option \<times> pystr" where
  "re_unit s =
     (case s of
        a # b # r \<Rightarrow>
          if (icase CHR ''m'' a \<and> icase CHR ''m'' b) \<or>
             (icase CHR ''c'' a \<and> icase CHR ''m'' b) \<or>
             (icase CHR ''i'' a \<and> icase CHR ''n'' b)
          then (Some [a, b], r) else (None, s)
      | _ \<Rightarrow> (None, s))"

text \<open>\<open>re.match\<close> with the pattern above; the result is \<open>m.groups()\<close>.\<close>

definition re_match_paper :: "unicode \<Rightarrow> pystr \<Rightarrow> (pystr \<times> pystr \<times> pystr option) option" where
  "re_match_paper U spec =
     (case re_number U (dropWhile isspace spec) of
        None \<Rightarrow> None
      | Some (w, s2) \<Rightarrow>
         (case dropWhile isspace s2 of
            [] \<Rightarrow> None
          | c # s4 \<Rightarrow>
             if \<not> icase CHR ''x'' c then None
             else (case re_number U (dropWhile isspace s4) of
                     None \<Rightarrow> None
                   | Some (h, s6) \<Rightarrow>
                      (case re_unit s6 of
                         (unit, s7) \<Rightarrow>
                           if dropWhile isspace s7 = [] then Some (w, h, unit) else None))))"

text \<open>
  \<open>float\<close> on a text of the form \<^verbatim>\<open>\d+(?:\.\d+)?\<close>, the only texts it is called on: the
  decimal number written there, exactly. The rounding of \<open>float\<close> to a double, with its
  underflow to zero and its overflow to infinity, is not modelled.
\<close>

definition digits_val :: "unicode \<Rightarrow> pystr \<Rightarrow> int" where
  "digits_val U ds = foldl (\<lambda>a c. 10 * a + (case decimal U c of None \<Rightarrow> 0 | Some v \<Rightarrow> v)) 0 ds"

definition float_of :: "unicode \<Rightarrow> pystr \<Rightarrow> rat" where
  "float_of U s =
     (let ip = takeWhile (isdigit U) s; fp = drop (Suc (length ip)) s
      in of_int (digits_val U ip) + of_int (digits_val U fp) / 10 ^ length fp)"

definition parse_custom_paper :: "unicode \<Rightarrow> pystr \<Rightarrow> error + (rat \<times> rat)" where
  "parse_custom_paper U spec =
     (case re_match_paper U spec of
        None \<Rightarrow> Inl InvalidPaperFormat
      | Some (ws, hs, u) \<Rightarrow>
         (let w = float_of U ws; h = float_of U hs;
              unit = lower U (case u of None \<Rightarrow> codes ''mm'' | Some t \<Rightarrow> t)
          in if unit = codes ''mm'' then Inr (w * mm, h * mm)
             else if unit = codes ''cm'' then Inr (w * 10 * mm, h * 10 * mm)
             else if unit \<in> {codes ''in'', codes ''inch'', codes ''inches''}
               then Inr (w * (254 / 10) * mm, h * (254 / 10) * mm)
             else Inl UnknownUnits))"

definition PAPERS :: "pystr \<rightharpoonup> rat \<times> rat" where
  "PAPERS = map_of [(codes ''a4'', A4), (codes ''letter'', LETTER), (codes ''a3'', A3)]"

text \<open>The first step of \<open>main\<close>: the paper size of the \<open>--paper\<close> argument.\<close>

definition paper_size_of :: "unicode \<Rightarrow> pystr \<Rightarrow> error + (rat \<times> rat)" where
  "paper_size_of U paper =
     (let paper_key = lower U (strip paper)
      in case PAPERS paper_key of
           Some paper_size \<Rightarrow> Inr paper_size
         | None \<Rightarrow> parse_custom_paper U paper)"

text \<open>
  The pattern as a language, read off the regular expression: a number is a non-empty
  run of digits, optionally followed by a dot and another non-empty run of digits; a
  unit is one of \<open>mm\<close>, \<open>cm\<close> and \<open>in\<close> in any case.
\<close>

definition is_number :: "unicode \<Rightarrow> pystr \<Rightarrow> bool" where
  "is_number U n \<longleftrightarrow>
     (\<exists>ds fs. ds \<noteq> [] \<and> (\<forall>c \<in> set ds. isdigit U c) \<and> (\<forall>c \<in> set fs. isdigit U c) \<and>
        (n = ds \<or> (fs \<noteq> [] \<and> n = ds @ of_char CHR ''.'' # fs)))"

definition is_unit :: "pystr \<Rightarrow> bool" where
  "is_unit u \<longleftrightarrow>
     (\<exists>a b. u = [a, b] \<and>
        ((icase CHR ''m'' a \<and> icase CHR ''m'' b) \<or>
         (icase CHR ''c'' a \<and> icase CHR ''m'' b) \<or>
         (icase CHR ''i'' a \<and> icase CHR ''n'' b)))"

definition paper_pattern :: "unicode \<Rightarrow> pystr \<Rightarrow> bool" where
  "paper_pattern U s \<longleftrightarrow>
     (\<exists>s1 w s2 x s3 h u s4.
        s = s1 @ w @ s2 @ x # s3 @ h @ u @ s4 \<and>
        (\<forall>c \<in> set (s1 @ s2 @ s3 @ s4). isspace c) \<and>
        is_number U w \<and> is_number U h \<and> icase CHR ''x'' x \<and>
        (u = [] \<or> is_unit u))"

text \<open>
  The millimetres in one unit of length: one for \<open>mm\<close>, also when no unit is written, ten
  for \<open>cm\<close>, and 25.4 for the inch, the only other unit a paper is given in.
\<close>

definition mm_per_unit :: "unicode \<Rightarrow> pystr option \<Rightarrow> rat" where
  "mm_per_unit U u =
     (case u of
        None \<Rightarrow> 1
      | Some t \<Rightarrow> if lower U t = codes ''mm'' then 1
                  else if lower U t = codes ''cm'' then 10 else 254 / 10)"

text \<open>
  A fragment of the tables of the runtime, for the examples: the Arabic-Indic digits
  U+0660 to U+0669, and \<open>str.lower\<close> leaving a string beyond U+00FF as it is, as Python
  does with the strings of the examples.
\<close>

definition sample_unicode :: unicode where
  "sample_unicode =
     \<lparr>u_decimal = (\<lambda>c. if 1632 \<le> c \<and> c \<le> 1641 then Some (c - 1632) else None),
      u_lower = id\<rparr>"

subsection \<open>Drawing\<close>

text \<open>
  The calls the script makes on its \<open>reportlab\<close> canvas, and what it prints, in the order
  it makes them. The canvas is a capability of the library, not part of the script: the
  model records each call. A \<open>drawImage\<close> that raises leaves nothing on the page.
\<close>

datatype effect =
    NewCanvas string "rat \<times> rat"
  | Translate rat rat
  | Rotate rat
  | ShowPage
  | SetFillColor rat rat rat
  | SetLineWidth rat
  | Rect rat rat rat rat
  | Line rat rat rat rat
  | DrawImage string rat rat rat rat
  | Warn string
  | Save
  | Print string

definition draw_crop_marks :: "rat \<Rightarrow> rat \<Rightarrow> rat \<Rightarrow> rat \<Rightarrow> rat \<Rightarrow> rat \<Rightarrow> effect list" where
  "draw_crop_marks x y w h mark_len offset =
     [SetLineWidth (3 / 10),
      Line (x - offset - mark_len) (y - offset) (x - offset) (y - offset),
      Line (x - offset) (y - offset - mark_len) (x - offset) (y - offset),
      Line (x + w + offset) (y - offset) (x + w + offset + mark_len) (y - offset),
      Line (x + w + offset) (y - offset - mark_len) (x + w + offset) (y - offset),
      Line (x - offset - mark_len) (y + h + offset) (x - offset) (y + h + offset),
      Line (x - offset) (y + h + offset) (x - offset) (y + h + offset + mark_len),
      Line (x + w + offset) (y + h + offset) (x + w + offset + mark_len) (y + h + offset),
      Line (x + w + offset) (y + h + offset) (x + w + offset) (y + h + offset + mark_len)]"

text \<open>\<open>range(n)\<close> for an integer \<open>n\<close> is \<open>[0..n - 1]\<close>, empty when \<open>n \<le> 0\<close>.\<close>

definition draw_black_borders ::
  "int \<Rightarrow> int \<Rightarrow> rat \<Rightarrow> rat \<Rightarrow> rat \<Rightarrow> rat \<Rightarrow> rat \<Rightarrow> rat \<Rightarrow> rat \<Rightarrow> effect list" where
  "draw_black_borders rows cols x0 y0 w h dx dy gap_mm =
     (let gap = gap_mm * mm;
          total_width = of_int cols * dx - gap;
          total_height = of_int rows * dy - gap;
          border_extend = gap
      in [SetFillColor 0 0 0,
          Rect (x0 - border_extend) (y0 + total_height)
               (total_width + 2 * border_extend) border_extend,
          Rect (x0 - border_extend) (y0 - border_extend)
               (total_width + 2 * border_extend) border_extend,
          Rect (x0 - border_extend) (y0 - border_extend)
               border_extend (total_height + 2 * border_extend),
          Rect (x0 + total_width) (y0 - border_extend)
               border_extend (total_height + 2 * border_extend)]
         @ map (\<lambda>row. Rect x0 (y0 + of_int (rows - 1 - row) * dy - gap) total_width gap)
               [0..rows - 2]
         @ map (\<lambda>col. Rect (x0 + of_int col * dx + w) y0 gap total_height)
               [0..cols - 2])"

text \<open>
  The local variables of \<open>make_pdf\<close> that its loop reads: the grid, the page height (after
  the swap of a rotated page) and the options.
\<close>

record pdf_locals =
  l_rows :: int
  l_cols :: int
  l_x0 :: rat
  l_y0 :: rat
  l_rotated :: bool
  l_ph :: rat
  l_gap_mm :: rat
  l_cropmarks :: bool
  l_black_borders :: bool

definition l_w :: "pdf_locals \<Rightarrow> rat" where
  "l_w L = CARD_W_MM * mm"

definition l_h :: "pdf_locals \<Rightarrow> rat" where
  "l_h L = CARD_H_MM * mm"

definition l_dx :: "pdf_locals \<Rightarrow> rat" where
  "l_dx L = l_w L + l_gap_mm L * mm"

definition l_dy :: "pdf_locals \<Rightarrow> rat" where
  "l_dy L = l_h L + l_gap_mm L * mm"

definition per_page :: "pdf_locals \<Rightarrow> int" where
  "per_page L = l_rows L * l_cols L"

text \<open>The crop marks of every grid position, rows outside, columns inside.\<close>

definition all_crop_marks :: "pdf_locals \<Rightarrow> effect list" where
  "all_crop_marks L =
     concat (map (\<lambda>grid_row.
       concat (map (\<lambda>grid_col.
         draw_crop_marks (l_x0 L + of_int grid_col * l_dx L)
                         (l_y0 L + of_int (l_rows L - 1 - grid_row) * l_dy L)
                         (l_w L) (l_h L) (5 * mm) (0 * mm))
         [0..l_cols L - 1]))
       [0..l_rows L - 1])"

text \<open>What the loop does when \<open>i % per_page == 0\<close>: the page break and the decoration.\<close>

definition page_start :: "pdf_locals \<Rightarrow> nat \<Rightarrow> effect list" where
  "page_start L i =
     (if i > 0
      then ShowPage # (if l_rotated L then [Translate 0 (l_ph L), Rotate 90] else [])
      else [])
     @ (if l_black_borders L
        then draw_black_borders (l_rows L) (l_cols L) (l_x0 L) (l_y0 L) (l_w L) (l_h L)
               (l_dx L) (l_dy L) (l_gap_mm L)
        else [])
     @ (if l_cropmarks L then all_crop_marks L else [])"

text \<open>
  The slot of image \<open>i\<close> and the \<open>try\<close> around \<open>drawImage\<close>: \<open>loads img\<close> tells whether the
  call succeeds; when it raises, the script prints a warning and goes on.
\<close>

definition slot_row :: "pdf_locals \<Rightarrow> nat \<Rightarrow> int" where
  "slot_row L i = (int i mod per_page L) div l_cols L"

definition slot_col :: "pdf_locals \<Rightarrow> nat \<Rightarrow> int" where
  "slot_col L i = (int i mod per_page L) mod l_cols L"

definition slot_x :: "pdf_locals \<Rightarrow> nat \<Rightarrow> rat" where
  "slot_x L i = l_x0 L + of_int (slot_col L i) * l_dx L"

definition slot_y :: "pdf_locals \<Rightarrow> nat \<Rightarrow> rat" where
  "slot_y L i = l_y0 L + of_int (l_rows L - 1 - slot_row L i) * l_dy L"

definition place :: "pdf_locals \<Rightarrow> (string \<Rightarrow> bool) \<Rightarrow> nat \<Rightarrow> string \<Rightarrow> effect" where
  "place L loads i img =
     (if loads img then DrawImage img (slot_x L i) (slot_y L i) (l_w L) (l_h L)
      else Warn img)"

text \<open>
  The loop of \<open>make_pdf\<close> from counter \<open>i\<close> on. The grid comes from \<open>compute_grid\<close>, whose
  \<open>max(1, ...)\<close> keeps \<open>per_page\<close> positive, so \<open>i % per_page\<close> never divides by zero.
\<close>

fun draw_loop :: "pdf_locals \<Rightarrow> (string \<Rightarrow> bool) \<Rightarrow> nat \<Rightarrow> string list \<Rightarrow> effect list" where
  "draw_loop L loads i [] = []"
| "draw_loop L loads i (img # imgs) =
     (if int i mod per_page L = 0 then page_start L i else [])
     @ place L loads i img # draw_loop L loads (Suc i) imgs"

text \<open>\<open>make_pdf\<close> returns the effects and \<open>(rows, cols, per_page)\<close>.\<close>

definition make_pdf ::
  "(string \<Rightarrow> bool) \<Rightarrow> string list \<Rightarrow> string \<Rightarrow> rat \<times> rat \<Rightarrow> rat \<Rightarrow> rat \<Rightarrow> bool \<Rightarrow>
   orientation \<Rightarrow> bool \<Rightarrow> effect list \<times> (error + (int \<times> int \<times> int))" where
  "make_pdf loads images out_path paper_size margin_mm gap_mm cropmarks orient black_borders =
     (case paper_size of (pw, ph) \<Rightarrow>
        (case compute_grid pw ph margin_mm gap_mm orient of
           Inl e \<Rightarrow> ([NewCanvas out_path paper_size], Inl e)
         | Inr (rows, cols, x0, y0, rotated) \<Rightarrow>
            if rotated
            then (case compute_grid ph pw margin_mm gap_mm Portrait of
                    Inl e \<Rightarrow>
                      ([NewCanvas out_path paper_size, Translate 0 ph, Rotate 90], Inl e)
                  | Inr (rows', cols', x0', y0', _) \<Rightarrow>
                     (let L = \<lparr>l_rows = rows', l_cols = cols', l_x0 = x0', l_y0 = y0',
                               l_rotated = rotated, l_ph = pw, l_gap_mm = gap_mm,
                               l_cropmarks = cropmarks, l_black_borders = black_borders\<rparr>
                      in (NewCanvas out_path paper_size # Translate 0 ph # Rotate 90
                            # draw_loop L loads 0 images @ [Save],
                          Inr (rows', cols', per_page L))))
            else (let L = \<lparr>l_rows = rows, l_cols = cols, l_x0 = x0, l_y0 = y0,
                            l_rotated = rotated, l_ph = ph, l_gap_mm = gap_mm,
                            l_cropmarks = cropmarks, l_black_borders = black_borders\<rparr>
                  in (NewCanvas out_path paper_size # draw_loop L loads 0 images @ [Save],
                      Inr (rows, cols, per_page L)))))"

text \<open>
  The locals of the loop as a function of the plan \<open>compute_grid\<close> returned.
\<close>

definition plan_locals ::
  "rat \<times> rat \<Rightarrow> rat \<Rightarrow> bool \<Rightarrow> bool \<Rightarrow> int \<times> int \<times> rat \<times> rat \<times> bool \<Rightarrow> pdf_locals" where
  "plan_locals paper_size gap_mm cropmarks black_borders plan =
     (case paper_size of (pw, ph) \<Rightarrow>
        (case plan of (rows, cols, x0, y0, rotated) \<Rightarrow>
           \<lparr>l_rows = rows, l_cols = cols, l_x0 = x0, l_y0 = y0, l_rotated = rotated,
            l_ph = (if rotated then pw else ph), l_gap_mm = gap_mm,
            l_cropmarks = cropmarks, l_black_borders = black_borders\<rparr>))"

text \<open>
  The pages of a run: every effect with the number of \<open>showPage\<close> calls made before it,
  which is the index of the page it lands on. \<open>on_page p c\<close> are the effects of page \<open>p\<close>
  in a stretch of the run that starts on page \<open>c\<close>, \<open>page_effects p\<close> those of the whole
  run; a run that draws anything has one page more than it has page breaks.
\<close>

fun paged :: "nat \<Rightarrow> effect list \<Rightarrow> (nat \<times> effect) list" where
  "paged p [] = []"
| "paged p (e # es) = (if e = ShowPage then paged (Suc p) es else (p, e) # paged p es)"

definition on_page :: "nat \<Rightarrow> nat \<Rightarrow> effect list \<Rightarrow> effect list" where
  "on_page p c effs = map snd (filter (\<lambda>qe. fst qe = p) (paged c effs))"

definition page_effects :: "nat \<Rightarrow> effect list \<Rightarrow> effect list" where
  "page_effects p effs = on_page p 0 effs"

definition n_pages :: "effect list \<Rightarrow> nat" where
  "n_pages effs = Suc (length (filter (\<lambda>e. e = ShowPage) effs))"

definition is_line :: "effect \<Rightarrow> bool" where
  "is_line e = (case e of Line _ _ _ _ \<Rightarrow> True | _ \<Rightarrow> False)"

definition is_image :: "effect \<Rightarrow> bool" where
  "is_image e = (case e of DrawImage _ _ _ _ _ \<Rightarrow> True | Warn _ \<Rightarrow> True | _ \<Rightarrow> False)"

text \<open>
  A mark of length \<open>k\<close> at a corner of the cell with lower left corner \<open>(x, y)\<close>, width
  \<open>w\<close> and height \<open>h\<close>: a horizontal or vertical line of that length that has an end in a
  corner of the cell and stays on or beyond one side of it, so that it runs away from the
  cell and no point of it lies inside.
\<close>

definition corner_mark :: "rat \<Rightarrow> rat \<Rightarrow> rat \<Rightarrow> rat \<Rightarrow> rat \<Rightarrow> effect \<Rightarrow> bool" where
  "corner_mark x y w h k e =
     (case e of
        Line x1 y1 x2 y2 \<Rightarrow>
          ((x1, y1) \<in> {(x, y), (x + w, y), (x, y + h), (x + w, y + h)} \<or>
           (x2, y2) \<in> {(x, y), (x + w, y), (x, y + h), (x + w, y + h)}) \<and>
          ((y1 = y2 \<and> \<bar>x2 - x1\<bar> = k) \<or> (x1 = x2 \<and> \<bar>y2 - y1\<bar> = k)) \<and>
          (max x1 x2 \<le> x \<or> x + w \<le> min x1 x2 \<or> max y1 y2 \<le> y \<or> y + h \<le> min y1 y2)
      | _ \<Rightarrow> False)"

text \<open>What the run did with the images, in order, each with the page it happened on.\<close>

definition placed :: "effect list \<Rightarrow> (nat \<times> effect) list" where
  "placed effs = filter (\<lambda>qe. is_image (snd qe)) (paged 0 effs)"

subsection \<open>The command line\<close>

record args =
  a_paper :: pystr
  a_out :: string
  a_margin_mm :: rat
  a_gap_mm :: rat
  a_cropmarks :: bool
  a_black_borders :: bool
  a_orientation :: orientation

text \<open>\<open>str\<close> of an integer.\<close>

fun str_nat :: "nat \<Rightarrow> string" where
  "str_nat n =
     (if n < 10 then [char_of (48 + n)]
      else str_nat (n div 10) @ [char_of (48 + n mod 10)])"

declare str_nat.simps [simp del]

definition str_int :: "int \<Rightarrow> string" where
  "str_int i = (if i < 0 then CHR ''-'' # str_nat (nat (- i)) else str_nat (nat i))"

text \<open>
  \<open>math.ceil(total / per_page)\<close>, and the line \<open>main\<close> prints at the end; \<open>n_total\<close> is
  the script's \<open>total\<close>, and the arrow of the message is the three bytes of its UTF-8
  encoding.
\<close>

definition page_count :: "int \<Rightarrow> int \<Rightarrow> int" where
  "page_count n_total pp = \<lceil>(of_int n_total :: rat) / of_int pp\<rceil>"

definition report :: "int \<Rightarrow> string \<Rightarrow> int \<Rightarrow> int \<Rightarrow> int \<Rightarrow> int \<Rightarrow> string" where
  "report n_total out rows cols pp pages =
     ''Done: '' @ str_int n_total @ '' images '' @ [CHR 0xE2, CHR 0x86, CHR 0x92] @ '' ''
     @ out @ '' | '' @ str_int rows @ ''*'' @ str_int cols @ '' per page (''
     @ str_int pp @ ''/page), '' @ str_int pages @ '' pages.''"

text \<open>
  \<open>main\<close>, with the tables of the runtime, the images of the input folder (the result of
  \<open>list_images\<close>) and the behaviour of \<open>drawImage\<close> given. It returns the effects of the
  run and how it ended.
\<close>

definition main ::
  "unicode \<Rightarrow> (string \<Rightarrow> bool) \<Rightarrow> string list \<Rightarrow> args \<Rightarrow> effect list \<times> (error + unit)" where
  "main U loads imgs a =
     (case paper_size_of U (a_paper a) of
        Inl e \<Rightarrow> ([], Inl e)
      | Inr paper_size \<Rightarrow>
         if imgs = [] then ([], Inl NoImages)
         else (case make_pdf loads imgs (a_out a) paper_size (a_margin_mm a) (a_gap_mm a)
                     (a_cropmarks a) (a_orientation a) (a_black_borders a) of
                 (effs, Inl e) \<Rightarrow> (effs, Inl e)
               | (effs, Inr (rows, cols, pp)) \<Rightarrow>
                  (let n_total = int (length imgs);
                       pages = page_count n_total pp
                   in (effs @ [Print (report n_total (a_out a) rows cols pp pages)],
                       Inr ()))))"

section \<open>Properties\<close>

subsection \<open>The grid planner\<close>

lemma floordiv_Inr: "b \<noteq> 0 \<Longrightarrow> floordiv a b = Inr \<lfloor>a / b\<rfloor>"
  by (simp add: floordiv_def)

text \<open>
  One strip of the page: \<open>u\<close> is the usable length, \<open>card\<close> the card's side and \<open>g\<close> the
  gap. The clamped quotient of cells, with the gaps between them, fits into \<open>u\<close>.
\<close>

lemma strip_fit:
  fixes u card g :: rat
  assumes d: "card + g \<noteq> 0" and u: "card \<le> u"
  shows "of_int (max 1 \<lfloor>(u + g) / (card + g)\<rfloor>) * card
         + of_int (max 1 \<lfloor>(u + g) / (card + g)\<rfloor> - 1) * g \<le> u"
proof -
  define q where "q = \<lfloor>(u + g) / (card + g)\<rfloor>"
  have qle: "of_int q \<le> (u + g) / (card + g)"
    unfolding q_def by (rule of_int_floor_le)
  have "max 1 q = 1 \<or> (max 1 q = q \<and> 0 < card + g)"
  proof (cases "0 < card + g")
    case True
    then show ?thesis by (cases "1 \<le> q") simp_all
  next
    case False
    with d have neg: "card + g < 0" by simp
    from u have "card + g \<le> u + g" by simp
    with neg have "(u + g) / (card + g) \<le> 1"
      by (simp add: divide_le_eq)
    with qle have "of_int q \<le> (1::rat)" by linarith
    then have "q \<le> 1" by simp
    then show ?thesis by simp
  qed
  then show ?thesis
  proof
    assume "max 1 q = 1"
    with u show ?thesis unfolding q_def [symmetric] by simp
  next
    assume m: "max 1 q = q \<and> 0 < card + g"
    with qle have "of_int q * (card + g) \<le> u + g"
      by (simp add: pos_le_divide_eq)
    then have "of_int q * card + (of_int q - 1) * g \<le> u"
      by (simp add: algebra_simps)
    with m show ?thesis unfolding q_def [symmetric] by simp
  qed
qed

text \<open>
  In exact arithmetic, a candidate whose frame holds one card in each dimension fits
  into the usable area of that frame, unless the card plus the gap is zero, where the
  floor division raises. The rounding of the program's doubles is not part of this
  statement.
\<close>

lemma attempt_fits_exact:
  assumes gw: "CARD_W_MM * mm + gap_mm * mm \<noteq> 0"
      and gh: "CARD_H_MM * mm + gap_mm * mm \<noteq> 0"
      and uw: "CARD_W_MM * mm \<le> pw - 2 * margin_mm * mm"
      and uh: "CARD_H_MM * mm \<le> ph - 2 * margin_mm * mm"
  shows "\<exists>rows cols x0 y0.
           attempt margin_mm gap_mm pw ph = Inr (rows, cols, x0, y0) \<and>
           of_int cols * (CARD_W_MM * mm) + of_int (cols - 1) * (gap_mm * mm)
             \<le> pw - 2 * margin_mm * mm \<and>
           of_int rows * (CARD_H_MM * mm) + of_int (rows - 1) * (gap_mm * mm)
             \<le> ph - 2 * margin_mm * mm"
proof -
  define cols where
    "cols = max 1 \<lfloor>(pw - 2 * margin_mm * mm + gap_mm * mm) / (CARD_W_MM * mm + gap_mm * mm)\<rfloor>"
  define rows where
    "rows = max 1 \<lfloor>(ph - 2 * margin_mm * mm + gap_mm * mm) / (CARD_H_MM * mm + gap_mm * mm)\<rfloor>"
  define x0 where
    "x0 = (pw - (of_int cols * CARD_W_MM * mm + of_int (cols - 1) * gap_mm * mm)) / 2"
  define y0 where
    "y0 = (ph - (of_int rows * CARD_H_MM * mm + of_int (rows - 1) * gap_mm * mm)) / 2"
  have a: "attempt margin_mm gap_mm pw ph = Inr (rows, cols, x0, y0)"
    using gw gh by (simp add: attempt_def floordiv_def Let_def cols_def rows_def x0_def y0_def)
  have fw: "of_int cols * (CARD_W_MM * mm) + of_int (cols - 1) * (gap_mm * mm)
             \<le> pw - 2 * margin_mm * mm"
    unfolding cols_def by (rule strip_fit [OF gw uw])
  have fh: "of_int rows * (CARD_H_MM * mm) + of_int (rows - 1) * (gap_mm * mm)
             \<le> ph - 2 * margin_mm * mm"
    unfolding rows_def by (rule strip_fit [OF gh uh])
  from a fw fh show ?thesis by blast
qed

lemma attempt_pos:
  assumes "attempt margin_mm gap_mm pw ph = Inr (rows, cols, x0, y0)"
  shows "1 \<le> rows \<and> 1 \<le> cols"
  using assms
  by (auto simp: attempt_def floordiv_def Let_def split: if_splits)

lemma compute_grid_attempt:
  assumes "compute_grid pw ph margin_mm gap_mm orient = Inr (rows, cols, x0, y0, rotated)"
  shows "attempt margin_mm gap_mm pw ph = Inr (rows, cols, x0, y0) \<or>
         attempt margin_mm gap_mm ph pw = Inr (rows, cols, x0, y0)"
proof (cases orient)
  case Auto
  with assms show ?thesis
    by (auto simp: compute_grid_def Let_def split: sum.splits if_splits)
next
  case Portrait
  with assms show ?thesis
    by (auto simp: compute_grid_def split: sum.splits)
next
  case Landscape
  with assms show ?thesis
    by (auto simp: compute_grid_def split: sum.splits)
qed

lemma compute_grid_pos:
  assumes "compute_grid pw ph margin_mm gap_mm orient = Inr (rows, cols, x0, y0, rotated)"
  shows "1 \<le> rows \<and> 1 \<le> cols"
  using compute_grid_attempt [OF assms] attempt_pos by blast

text \<open>
  C1, as amended. The claim as stated fails: the planner clamps the rows and the columns
  of a candidate to one and, with orientation Auto, compares the candidates after
  clamping, so that on a 75 x 400 mm page, whose usable area of 65 x 390 mm holds a
  card, it returns the rotated plan of one row and five columns, whose row of 88 mm
  does not fit into the 65 mm of the turned page. What holds for every page size, margin
  and gap, and every orientation, is the first half of the claim: a plan the planner
  returns has at least one row and one column, hence at least one cell per page.
\<close>

theorem plan_has_a_cell:
  assumes "compute_grid pw ph margin_mm gap_mm orient = Inr (rows, cols, x0, y0, rot)"
  shows "1 \<le> rows \<and> 1 \<le> cols \<and> 1 \<le> rows * cols"
proof -
  from compute_grid_attempt [OF assms] attempt_pos
  have rc: "1 \<le> rows \<and> 1 \<le> cols" by blast
  then have "1 * 1 \<le> rows * cols" by (intro mult_mono) simp_all
  with rc show ?thesis by simp
qed

text \<open>The three orientations on an A4 page with a margin of 5 mm and a gap of 3 mm.\<close>

theorem plan_has_a_cell_witness:
  "compute_grid (210 * mm) (297 * mm) 5 3 Auto = Inr (3, 3, 2700 / 127, 4860 / 127, False) \<and>
   compute_grid (210 * mm) (297 * mm) 5 3 Landscape = Inr (2, 4, 6480 / 127, 5580 / 127, True) \<and>
   (1::int) \<le> 3 \<and> (1::int) \<le> 3 * 3 \<and> (1::int) \<le> 2 \<and> (1::int) \<le> 4 \<and> (1::int) \<le> 2 * 4"
proof -
  have a: "compute_grid (210 * mm) (297 * mm) 5 3 Auto
           = Inr (3, 3, 2700 / 127, 4860 / 127, False)" by code_simp
  have l: "compute_grid (210 * mm) (297 * mm) 5 3 Landscape
           = Inr (2, 4, 6480 / 127, 5580 / 127, True)" by code_simp
  from plan_has_a_cell [OF a] plan_has_a_cell [OF l] a l show ?thesis by simp
qed

text \<open>
  A page of 75 x 400 mm with a margin of 5 mm and a gap of 3 mm: the usable area holds a
  card, the plan of orientation Auto is rotated with one row and five columns, and its
  block fits neither into the usable area of the page nor into that of the turned page.
\<close>

theorem auto_plan_overflows:
  "CARD_W_MM * mm \<le> 75 * mm - 2 * 5 * mm \<and> CARD_H_MM * mm \<le> 400 * mm - 2 * 5 * mm \<and>
   compute_grid (75 * mm) (400 * mm) 5 3 Auto = Inr (1, 5, 13140 / 127, - (2340 / 127), True) \<and>
   \<not> (5 * (CARD_W_MM * mm) + 4 * (3 * mm) \<le> 75 * mm - 2 * 5 * mm \<and>
      1 * (CARD_H_MM * mm) + 0 * (3 * mm) \<le> 400 * mm - 2 * 5 * mm) \<and>
   \<not> (5 * (CARD_W_MM * mm) + 4 * (3 * mm) \<le> 400 * mm - 2 * 5 * mm \<and>
      1 * (CARD_H_MM * mm) + 0 * (3 * mm) \<le> 75 * mm - 2 * 5 * mm)"
  by code_simp

text \<open>A plan that is rotated is the portrait plan of the page turned by a quarter.\<close>

lemma compute_grid_rotated:
  assumes "compute_grid pw ph margin_mm gap_mm orient = Inr (rows, cols, x0, y0, True)"
  shows "compute_grid ph pw margin_mm gap_mm Portrait = Inr (rows, cols, x0, y0, False)"
proof (cases orient)
  case Auto
  with assms show ?thesis
    by (auto simp: compute_grid_def Let_def split: sum.splits if_splits)
next
  case Portrait
  with assms show ?thesis
    by (auto simp: compute_grid_def split: sum.splits)
next
  case Landscape
  with assms show ?thesis
    by (auto simp: compute_grid_def split: sum.splits)
qed

text \<open>
  C3. When both candidates exist, \<open>compute_grid\<close> with orientation Auto returns the
  landscape plan (rotated) exactly when its number of cells \<open>rows * cols\<close> is strictly
  greater than that of the portrait plan, and the portrait plan otherwise, so also when
  the two products are equal.
\<close>

theorem compute_grid_auto:
  assumes p: "compute_grid pw ph margin_mm gap_mm Portrait = Inr (r1, c1, x1, y1, False)"
      and l: "compute_grid pw ph margin_mm gap_mm Landscape = Inr (r2, c2, x2, y2, True)"
  shows "compute_grid pw ph margin_mm gap_mm Auto =
           (if r1 * c1 < r2 * c2 then Inr (r2, c2, x2, y2, True)
            else Inr (r1, c1, x1, y1, False))"
proof -
  from p have a1: "attempt margin_mm gap_mm pw ph = Inr (r1, c1, x1, y1)"
    by (auto simp: compute_grid_def split: sum.splits)
  from l have a2: "attempt margin_mm gap_mm ph pw = Inr (r2, c2, x2, y2)"
    by (auto simp: compute_grid_def split: sum.splits)
  from a1 a2 show ?thesis
    by (simp add: compute_grid_def Let_def)
qed

text \<open>
  An A4 page as it is (portrait wins with 9 cells against 8) and lying on its side
  (the rotated plan wins with 9 against 8).
\<close>

theorem compute_grid_auto_witness:
  "compute_grid (210 * mm) (297 * mm) 5 3 Portrait = Inr (3, 3, 2700 / 127, 4860 / 127, False) \<and>
   compute_grid (210 * mm) (297 * mm) 5 3 Landscape = Inr (2, 4, 6480 / 127, 5580 / 127, True) \<and>
   compute_grid (210 * mm) (297 * mm) 5 3 Auto = Inr (3, 3, 2700 / 127, 4860 / 127, False) \<and>
   compute_grid (297 * mm) (210 * mm) 5 3 Portrait = Inr (2, 4, 6480 / 127, 5580 / 127, False) \<and>
   compute_grid (297 * mm) (210 * mm) 5 3 Landscape = Inr (3, 3, 2700 / 127, 4860 / 127, True) \<and>
   compute_grid (297 * mm) (210 * mm) 5 3 Auto = Inr (3, 3, 2700 / 127, 4860 / 127, True)"
proof -
  have p1: "compute_grid (210 * mm) (297 * mm) 5 3 Portrait
            = Inr (3, 3, 2700 / 127, 4860 / 127, False)" by code_simp
  have l1: "compute_grid (210 * mm) (297 * mm) 5 3 Landscape
            = Inr (2, 4, 6480 / 127, 5580 / 127, True)" by code_simp
  have p2: "compute_grid (297 * mm) (210 * mm) 5 3 Portrait
            = Inr (2, 4, 6480 / 127, 5580 / 127, False)" by code_simp
  have l2: "compute_grid (297 * mm) (210 * mm) 5 3 Landscape
            = Inr (3, 3, 2700 / 127, 4860 / 127, True)" by code_simp
  from compute_grid_auto [OF p1 l1] compute_grid_auto [OF p2 l2] p1 l1 p2 l2
  show ?thesis by simp
qed

subsection \<open>Slots\<close>

lemma int_div_less:
  fixes a c r :: int
  assumes "0 < c" and "a < r * c"
  shows "a div c < r"
proof -
  have "c * (a div c) \<le> a"
    using mult_div_mod_eq [of c a] pos_mod_sign [of c a] assms(1) by linarith
  with assms(2) have "c * (a div c) < c * r" by (simp add: mult.commute)
  with assms(1) show ?thesis by simp
qed

text \<open>
  C10. For every image index and every grid with at least one row and one column, the
  row and the column of the image's slot lie inside the grid.
\<close>

theorem slot_in_grid:
  assumes r: "1 \<le> l_rows L" and c: "1 \<le> l_cols L"
  shows "0 \<le> slot_row L i \<and> slot_row L i < l_rows L \<and>
         0 \<le> slot_col L i \<and> slot_col L i < l_cols L"
proof -
  from r c have pp: "0 < per_page L" by (simp add: per_page_def)
  define slot where "slot = int i mod per_page L"
  from pp have s0: "0 \<le> slot" and s1: "slot < l_rows L * l_cols L"
    by (simp_all add: slot_def per_page_def [symmetric])
  from c have c0: "0 < l_cols L" by simp
  have "0 \<le> slot div l_cols L" using s0 c0 by (simp add: pos_imp_zdiv_nonneg_iff)
  moreover have "slot div l_cols L < l_rows L" using c0 s1 by (rule int_div_less)
  moreover have "0 \<le> slot mod l_cols L" "slot mod l_cols L < l_cols L" using c0 by simp_all
  ultimately show ?thesis by (simp add: slot_row_def slot_col_def slot_def)
qed

text \<open>The eighth image (index 7) on a grid of three rows and three columns.\<close>

theorem slot_in_grid_witness:
  "(1::int) \<le> 3 \<and>
   slot_row \<lparr>l_rows = 3, l_cols = 3, l_x0 = 0, l_y0 = 0, l_rotated = False, l_ph = 0,
             l_gap_mm = 3, l_cropmarks = False, l_black_borders = False\<rparr> 7 = 2 \<and>
   slot_col \<lparr>l_rows = 3, l_cols = 3, l_x0 = 0, l_y0 = 0, l_rotated = False, l_ph = 0,
             l_gap_mm = 3, l_cropmarks = False, l_black_borders = False\<rparr> 7 = 1"
  using slot_in_grid [of "\<lparr>l_rows = 3, l_cols = 3, l_x0 = 0, l_y0 = 0, l_rotated = False,
             l_ph = 0, l_gap_mm = 3, l_cropmarks = False, l_black_borders = False\<rparr>" 7]
  by (simp add: slot_row_def slot_col_def per_page_def)

subsection \<open>Paper sizes\<close>

text \<open>
  The classes of the pattern do not overlap: a digit is no white space and no dot, white
  space is no digit and no dot, and a letter of the pattern, in any case, is none of
  these.
\<close>

lemma digit_class:
  assumes "isdigit U c"
  shows "\<not> isspace c \<and> c \<noteq> of_char CHR ''.''"
  using assms by (auto simp: isdigit_def decimal_def isspace_def split: if_splits)

lemma space_class:
  assumes "isspace c"
  shows "\<not> isdigit U c \<and> c \<noteq> of_char CHR ''.''"
  using assms by (auto simp: isdigit_def decimal_def isspace_def split: if_splits)

lemma letter_class:
  assumes "icase p c" and "p \<in> {CHR ''x'', CHR ''m'', CHR ''c'', CHR ''i'', CHR ''n''}"
  shows "\<not> isdigit U c \<and> \<not> isspace c \<and> c \<noteq> of_char CHR ''.''"
  using assms by (auto simp: icase_def isdigit_def decimal_def isspace_def)

lemma dot_class: "\<not> isdigit U (of_char CHR ''.'')"
  by (simp add: isdigit_def decimal_def)

lemma takeWhile_all: "\<forall>c \<in> set xs. P c \<Longrightarrow> takeWhile P (xs @ ys) = xs @ takeWhile P ys"
  by (induction xs) simp_all

lemma dropWhile_all: "\<forall>c \<in> set xs. P c \<Longrightarrow> dropWhile P (xs @ ys) = dropWhile P ys"
  by (induction xs) simp_all

lemma takeWhile_stop: "ys = [] \<or> \<not> P (hd ys) \<Longrightarrow> takeWhile P ys = []"
  by (cases ys) auto

lemma dropWhile_stop: "ys = [] \<or> \<not> P (hd ys) \<Longrightarrow> dropWhile P ys = ys"
  by (cases ys) auto

text \<open>What \<open>re_number\<close> accepts is a number, and it splits the string there.\<close>

lemma re_number_sound:
  assumes "re_number U s = Some (w, r)"
  shows "is_number U w \<and> s = w @ r"
proof -
  define ds where "ds = takeWhile (isdigit U) s"
  define t where "t = dropWhile (isdigit U) s"
  have s: "s = ds @ t" by (simp add: ds_def t_def)
  have dd: "\<forall>c \<in> set ds. isdigit U c" unfolding ds_def by (auto dest: set_takeWhileD)
  from assms have ne: "ds \<noteq> []"
    by (auto simp: re_number_def Let_def ds_def split: if_splits)
  show ?thesis
  proof (cases "\<exists>t'. t = of_char CHR ''.'' # t' \<and> takeWhile (isdigit U) t' \<noteq> []")
    case True
    then obtain t' where t: "t = of_char CHR ''.'' # t'"
      and f: "takeWhile (isdigit U) t' \<noteq> []" by blast
    define fs where "fs = takeWhile (isdigit U) t'"
    have fd: "\<forall>c \<in> set fs. isdigit U c" unfolding fs_def by (auto dest: set_takeWhileD)
    from f have fne: "fs \<noteq> []" by (simp add: fs_def)
    from assms ne t f have w: "w = ds @ of_char CHR ''.'' # fs"
      and r: "r = dropWhile (isdigit U) t'"
      unfolding re_number_def Let_def ds_def [symmetric] t_def [symmetric] fs_def
      by simp_all
    have "t' = fs @ r" by (simp add: fs_def r)
    with s t w have "s = w @ r" by simp
    moreover from ne dd fd fne have "is_number U w"
      unfolding is_number_def w by blast
    ultimately show ?thesis by simp
  next
    case False
    with assms ne have "w = ds \<and> r = t"
      unfolding re_number_def Let_def ds_def [symmetric] t_def [symmetric]
      by (auto split: list.splits if_splits)
    moreover from ne dd have "is_number U ds" unfolding is_number_def by blast
    ultimately show ?thesis using s by simp
  qed
qed

text \<open>
  A number followed by something that neither continues it nor starts a fraction is what
  \<open>re_number\<close> takes.
\<close>

lemma re_number_complete:
  assumes n: "is_number U w"
      and r: "r = [] \<or> (\<not> isdigit U (hd r) \<and> hd r \<noteq> of_char CHR ''.'')"
  shows "re_number U (w @ r) = Some (w, r)"
proof -
  from n obtain ds fs where ne: "ds \<noteq> []" and dd: "\<forall>c \<in> set ds. isdigit U c"
    and fd: "\<forall>c \<in> set fs. isdigit U c"
    and w: "w = ds \<or> (fs \<noteq> [] \<and> w = ds @ of_char CHR ''.'' # fs)"
    unfolding is_number_def by blast
  from r have tr: "takeWhile (isdigit U) r = []" and dr: "dropWhile (isdigit U) r = r"
    by (auto intro: takeWhile_stop dropWhile_stop)
  from w show ?thesis
  proof
    assume w: "w = ds"
    from dd tr have t: "takeWhile (isdigit U) (ds @ r) = ds" by (simp add: takeWhile_all)
    from dd dr have d: "dropWhile (isdigit U) (ds @ r) = r" by (simp add: dropWhile_all)
    from r ne show ?thesis
      unfolding w re_number_def t d Let_def by (cases r) auto
  next
    assume "fs \<noteq> [] \<and> w = ds @ of_char CHR ''.'' # fs"
    then have fne: "fs \<noteq> []" and w: "w = ds @ of_char CHR ''.'' # fs" by simp_all
    note nd = dot_class [of U]
    from dd nd have t: "takeWhile (isdigit U) ((ds @ of_char CHR ''.'' # fs) @ r) = ds"
      by (simp add: takeWhile_all)
    from dd nd have d: "dropWhile (isdigit U) ((ds @ of_char CHR ''.'' # fs) @ r)
                        = of_char CHR ''.'' # fs @ r"
      by (simp add: dropWhile_all)
    from fd tr have tf: "takeWhile (isdigit U) (fs @ r) = fs" by (simp add: takeWhile_all)
    from fd dr have df: "dropWhile (isdigit U) (fs @ r) = r" by (simp add: dropWhile_all)
    from ne fne show ?thesis
      unfolding w re_number_def t d Let_def by (simp add: tf df)
  qed
qed

lemma is_number_hd: "is_number U w \<Longrightarrow> w \<noteq> [] \<and> isdigit U (hd w)"
  unfolding is_number_def by (auto simp: neq_Nil_conv)

lemma re_unit_sound:
  assumes "re_unit s = (u, r)"
  shows "\<exists>t. s = t @ r \<and> (t = [] \<or> is_unit t) \<and> u = (if t = [] then None else Some t)"
proof (cases "\<exists>t. u = Some t")
  case True
  then obtain t where u: "u = Some t" by blast
  with assms obtain a b where s: "s = a # b # r" and t: "t = [a, b]"
    and c: "(icase CHR ''m'' a \<and> icase CHR ''m'' b) \<or>
            (icase CHR ''c'' a \<and> icase CHR ''m'' b) \<or>
            (icase CHR ''i'' a \<and> icase CHR ''n'' b)"
    unfolding re_unit_def by (auto split: list.splits if_splits)
  from t c have "is_unit t" unfolding is_unit_def by blast
  with s t u show ?thesis by (intro exI [of _ t]) simp
next
  case False
  then have u: "u = None" by (cases u) simp_all
  with assms have "r = s"
    unfolding re_unit_def by (auto split: list.splits if_splits)
  with u show ?thesis by (intro exI [of _ "[]"]) simp
qed

lemma unit_shape:
  assumes "is_unit t"
  shows "length t = 2 \<and>
         (icase CHR ''m'' (hd t) \<or> icase CHR ''c'' (hd t) \<or> icase CHR ''i'' (hd t))"
  using assms unfolding is_unit_def by auto

lemma re_unit_complete:
  assumes u: "t = [] \<or> is_unit t" and s: "\<forall>c \<in> set s4. isspace c"
  shows "re_unit (t @ s4) = (if t = [] then None else Some t, s4)"
proof (cases "t = []")
  case True
  have "re_unit s4 = (None, s4)"
  proof (cases s4)
    case Nil
    then show ?thesis by (simp add: re_unit_def)
  next
    case (Cons a s5)
    with s have "isspace a" by simp
    then have n: "\<not> icase CHR ''m'' a \<and> \<not> icase CHR ''c'' a \<and> \<not> icase CHR ''i'' a"
      by (auto simp: icase_def isspace_def)
    show ?thesis
      unfolding Cons re_unit_def using n by (cases s5) simp_all
  qed
  with True show ?thesis by simp
next
  case False
  with u have "is_unit t" by simp
  then obtain a b where t: "t = [a, b]"
    and c: "(icase CHR ''m'' a \<and> icase CHR ''m'' b) \<or>
            (icase CHR ''c'' a \<and> icase CHR ''m'' b) \<or>
            (icase CHR ''i'' a \<and> icase CHR ''n'' b)"
    unfolding is_unit_def by blast
  from c show ?thesis unfolding t re_unit_def by simp
qed

text \<open>The matcher accepts exactly the strings of the pattern.\<close>

lemma re_match_sound:
  assumes "re_match_paper U s = Some (w, h, u)"
  shows "paper_pattern U s \<and> is_number U w \<and> is_number U h \<and>
         (case u of None \<Rightarrow> True | Some t \<Rightarrow> is_unit t)"
proof -
  from assms obtain s2 x s4 s6 u' s7 where
    n1: "re_number U (dropWhile isspace s) = Some (w, s2)"
    and x: "dropWhile isspace s2 = x # s4"
    and lx: "icase CHR ''x'' x"
    and n2: "re_number U (dropWhile isspace s4) = Some (h, s6)"
    and ru: "re_unit s6 = (u', s7)"
    and e: "dropWhile isspace s7 = []" and u: "u' = u"
    unfolding re_match_paper_def
    by (auto split: option.splits list.splits if_splits prod.splits)
  from re_number_sound [OF n1] have w: "is_number U w" and d1: "dropWhile isspace s = w @ s2"
    by simp_all
  from re_number_sound [OF n2] have h: "is_number U h" and d2: "dropWhile isspace s4 = h @ s6"
    by simp_all
  from re_unit_sound [OF ru] obtain t where s6: "s6 = t @ s7"
    and t: "t = [] \<or> is_unit t"
    and ut: "u' = (if t = [] then None else Some t)" by blast
  from e have sp7: "\<forall>c \<in> set s7. isspace c" by simp
  define s1 where "s1 = takeWhile isspace s"
  define t2 where "t2 = takeWhile isspace s2"
  define t3 where "t3 = takeWhile isspace s4"
  have sp: "\<forall>c \<in> set (s1 @ t2 @ t3 @ s7). isspace c"
    using sp7 by (auto simp: s1_def t2_def t3_def dest: set_takeWhileD)
  have "s = s1 @ dropWhile isspace s" by (simp add: s1_def)
  also have "dropWhile isspace s = w @ s2" by (rule d1)
  also have "s2 = t2 @ dropWhile isspace s2" by (simp add: t2_def)
  also have "dropWhile isspace s2 = x # s4" by (rule x)
  also have "s4 = t3 @ dropWhile isspace s4" by (simp add: t3_def)
  also have "dropWhile isspace s4 = h @ t @ s7" by (simp add: d2 s6)
  finally have "s = s1 @ w @ t2 @ x # t3 @ h @ t @ s7" .
  with sp w h lx t have "paper_pattern U s" unfolding paper_pattern_def by blast
  moreover from t ut u have "case u of None \<Rightarrow> True | Some t \<Rightarrow> is_unit t"
    by (auto split: if_splits)
  ultimately show ?thesis using w h by simp
qed

lemma re_match_complete:
  assumes "paper_pattern U s"
  shows "\<exists>g. re_match_paper U s = Some g"
proof -
  from assms obtain s1 w s2 x s3 h u s4 where
    s: "s = s1 @ w @ s2 @ x # s3 @ h @ u @ s4"
    and sp: "\<forall>c \<in> set (s1 @ s2 @ s3 @ s4). isspace c"
    and w: "is_number U w" and h: "is_number U h" and lx: "icase CHR ''x'' x"
    and u: "u = [] \<or> is_unit u"
    unfolding paper_pattern_def by blast
  from lx letter_class [of "CHR ''x''" x U]
  have xc: "\<not> isdigit U x \<and> \<not> isspace x \<and> x \<noteq> of_char CHR ''.''" by simp
  from is_number_hd [OF w] digit_class [of U "hd w"]
  have wh: "w \<noteq> [] \<and> \<not> isspace (hd w)" by simp
  from is_number_hd [OF h] digit_class [of U "hd h"]
  have hh: "h \<noteq> [] \<and> \<not> isspace (hd h)" by simp
  \<comment> \<open>the leading white space\<close>
  from sp wh have a1: "dropWhile isspace s = w @ s2 @ x # s3 @ h @ u @ s4"
    unfolding s by (simp add: dropWhile_all dropWhile_stop)
  \<comment> \<open>the first number: what follows is white space or the letter\<close>
  have f1: "s2 @ x # s3 @ h @ u @ s4 = [] \<or>
        (\<not> isdigit U (hd (s2 @ x # s3 @ h @ u @ s4)) \<and>
         hd (s2 @ x # s3 @ h @ u @ s4) \<noteq> of_char CHR ''.'')"
  proof (cases s2)
    case Nil
    with xc show ?thesis by simp
  next
    case (Cons c cs)
    with sp have "isspace c" by simp
    from space_class [OF this, of U] Cons show ?thesis by simp
  qed
  have a2: "re_number U (w @ s2 @ x # s3 @ h @ u @ s4) = Some (w, s2 @ x # s3 @ h @ u @ s4)"
    by (rule re_number_complete [OF w f1])
  from sp xc have a3: "dropWhile isspace (s2 @ x # s3 @ h @ u @ s4) = x # s3 @ h @ u @ s4"
    by (simp add: dropWhile_all)
  from sp hh have a4: "dropWhile isspace (s3 @ h @ u @ s4) = h @ u @ s4"
    by (simp add: dropWhile_all dropWhile_stop)
  \<comment> \<open>the second number: what follows is a unit, white space or the end\<close>
  have f2: "u @ s4 = [] \<or> (\<not> isdigit U (hd (u @ s4)) \<and> hd (u @ s4) \<noteq> of_char CHR ''.'')"
  proof (cases "u = []")
    case True
    show ?thesis
    proof (cases s4)
      case Nil
      with True show ?thesis by simp
    next
      case (Cons c cs)
      with sp have "isspace c" by simp
      from space_class [OF this, of U] Cons True show ?thesis by simp
    qed
  next
    case False
    with u unit_shape [of u]
    have "icase CHR ''m'' (hd u) \<or> icase CHR ''c'' (hd u) \<or> icase CHR ''i'' (hd u)" by simp
    then have "\<not> isdigit U (hd u) \<and> hd u \<noteq> of_char CHR ''.''"
      using letter_class [of "CHR ''m''" "hd u" U] letter_class [of "CHR ''c''" "hd u" U]
        letter_class [of "CHR ''i''" "hd u" U] by blast
    with False show ?thesis by simp
  qed
  have a5: "re_number U (h @ u @ s4) = Some (h, u @ s4)"
    by (rule re_number_complete [OF h f2])
  from sp have sp4: "\<forall>c \<in> set s4. isspace c" by simp
  have a6: "re_unit (u @ s4) = (if u = [] then None else Some u, s4)"
    by (rule re_unit_complete [OF u sp4])
  from sp4 show ?thesis
    unfolding re_match_paper_def a1 a2 by (simp add: a3 lx a4 a5 a6)
qed

lemma re_match_iff: "re_match_paper U s = None \<longleftrightarrow> \<not> paper_pattern U s"
proof
  assume "re_match_paper U s = None"
  with re_match_complete [of U s] show "\<not> paper_pattern U s" by auto
next
  assume n: "\<not> paper_pattern U s"
  show "re_match_paper U s = None"
  proof (cases "re_match_paper U s")
    case (Some g)
    obtain w h u where "g = (w, h, u)" by (cases g)
    with Some re_match_sound [of U s w h u] n show ?thesis by simp
  qed simp
qed

text \<open>
  \<open>parse_custom_paper\<close> raises its first \<open>ValueError\<close> on the strings outside the pattern
  and on no other, and its second only on a string of the pattern.
\<close>

lemma parse_custom_paper_error:
  assumes "parse_custom_paper U s = Inl e"
  shows "(e = InvalidPaperFormat \<and> \<not> paper_pattern U s) \<or>
         (e = UnknownUnits \<and> paper_pattern U s)"
proof (cases "re_match_paper U s")
  case None
  with assms show ?thesis by (simp add: parse_custom_paper_def re_match_iff [symmetric])
next
  case (Some g)
  obtain w h u where g: "g = (w, h, u)" by (cases g)
  from re_match_sound [of U s w h u] Some g have "paper_pattern U s" by simp
  moreover from assms Some g have "e = UnknownUnits"
    by (auto simp: parse_custom_paper_def Let_def split: if_splits)
  ultimately show ?thesis by simp
qed

text \<open>
  The second \<open>ValueError\<close> is raised: the pattern accepts the dotless \<open>i\<close> (U+0131) for
  the \<open>i\<close> of \<open>in\<close>, and \<open>str.lower\<close> leaves it as it is.
\<close>

lemma unknown_units_raised:
  "parse_custom_paper sample_unicode (codes ''210x297'' @ [305, 110]) = Inl UnknownUnits"
  by code_simp

text \<open>
  C7. A paper argument that is no known paper name (after \<open>strip\<close> and \<open>lower\<close>) and
  does not match the pattern makes \<open>main\<close> fail with the \<open>ValueError\<close> of
  \<open>parse_custom_paper\<close>, whatever the tables of the runtime say beyond U+00FF: the error
  is the result of the run, and the run has no effect at all, so no canvas is created,
  no page is opened and nothing is saved.
\<close>

theorem invalid_paper_aborts:
  assumes "PAPERS (lower U (strip (a_paper a))) = None"
      and "\<not> paper_pattern U (a_paper a)"
  shows "main U loads imgs a = ([], Inl InvalidPaperFormat)"
proof -
  from assms(2) have "re_match_paper U (a_paper a) = None" by (simp add: re_match_iff)
  then have "parse_custom_paper U (a_paper a) = Inl InvalidPaperFormat"
    by (simp add: parse_custom_paper_def)
  with assms(1) have "paper_size_of U (a_paper a) = Inl InvalidPaperFormat"
    by (simp add: paper_size_of_def Let_def)
  then show ?thesis by (simp add: main_def)
qed

text \<open>The paper string \<open>210x\<close>, with two images in the folder.\<close>

theorem invalid_paper_aborts_witness:
  "PAPERS (lower sample_unicode (strip (codes ''210x''))) = None \<and>
   \<not> paper_pattern sample_unicode (codes ''210x'') \<and>
   main sample_unicode top [''1.png'', ''2.png'']
     \<lparr>a_paper = codes ''210x'', a_out = ''cards_print.pdf'', a_margin_mm = 5, a_gap_mm = 3,
      a_cropmarks = False, a_black_borders = False, a_orientation = Auto\<rparr>
   = ([], Inl InvalidPaperFormat)"
proof -
  have k: "PAPERS (lower sample_unicode (strip (codes ''210x''))) = None" by code_simp
  have "re_match_paper sample_unicode (codes ''210x'') = None" by code_simp
  then have p: "\<not> paper_pattern sample_unicode (codes ''210x'')" by (simp add: re_match_iff)
  from invalid_paper_aborts [of sample_unicode "\<lparr>a_paper = codes ''210x'',
      a_out = ''cards_print.pdf'', a_margin_mm = 5, a_gap_mm = 3, a_cropmarks = False,
      a_black_borders = False, a_orientation = Auto\<rparr>" top "[''1.png'', ''2.png'']"] k p
  show ?thesis by simp
qed

lemma mm_pos: "0 < mm"
  by (simp add: mm_def cm_def inch_def)

lemma digits_val_nonneg: "0 \<le> digits_val U ds"
proof -
  have "0 \<le> a \<Longrightarrow>
        0 \<le> foldl (\<lambda>a c. 10 * a + (case decimal U c of None \<Rightarrow> 0 | Some v \<Rightarrow> v)) a ds"
    for a :: int
  proof (induction ds arbitrary: a)
    case (Cons c cs)
    have "0 \<le> (case decimal U c of None \<Rightarrow> 0 | Some v \<Rightarrow> v)"
      by (auto simp: decimal_def split: option.splits if_splits)
    with Cons.prems have "0 \<le> 10 * a + (case decimal U c of None \<Rightarrow> 0 | Some v \<Rightarrow> v)"
      by simp
    from Cons.IH [OF this] show ?case by simp
  qed simp
  then show ?thesis by (simp add: digits_val_def)
qed

lemma float_of_nonneg: "0 \<le> float_of U s"
  by (simp add: float_of_def Let_def digits_val_nonneg)

lemma PAPERS_pos:
  assumes "PAPERS k = Some (w, h)"
  shows "0 < w \<and> 0 < h"
proof -
  from assms have "(w, h) \<in> {A4, A3, LETTER}"
    by (auto simp: PAPERS_def split: if_splits)
  then show ?thesis
    by (auto simp: A4_def A3_def LETTER_def mm_def cm_def inch_def)
qed

text \<open>What \<open>parse_custom_paper\<close> returns, by the unit it read.\<close>

lemma parse_custom_paper_Inr:
  assumes "parse_custom_paper U s = Inr (w, h)"
  shows "\<exists>ws hs u. re_match_paper U s = Some (ws, hs, u) \<and>
           w = float_of U ws * mm_per_unit U u * mm \<and>
           h = float_of U hs * mm_per_unit U u * mm"
proof -
  from assms obtain ws hs u where m: "re_match_paper U s = Some (ws, hs, u)"
    by (auto simp: parse_custom_paper_def split: option.splits)
  have c: "codes ''mm'' \<noteq> codes ''cm''" by (simp add: codes_def)
  show ?thesis
  proof (cases u)
    case None
    have "lower U (codes ''mm'') = codes ''mm''"
      by (simp add: lower_def codes_def lower_latin1_def)
    with assms m None show ?thesis
      by (simp add: parse_custom_paper_def mm_per_unit_def)
  next
    case (Some t)
    with assms m c show ?thesis
      by (auto simp: parse_custom_paper_def Let_def mm_per_unit_def split: if_splits)
  qed
qed

lemma mm_per_unit_pos: "0 < mm_per_unit U u"
  by (simp add: mm_per_unit_def split: option.splits)

text \<open>
  C9, as amended. The claim as stated fails on the spec string \<open>0x0\<close>, which the pattern
  accepts and which gives a paper of width and height zero. Every paper size the
  resolver produces has a width and a height that are not negative, and those of the
  named papers are strictly positive.
\<close>

theorem paper_size_nonneg:
  assumes "paper_size_of U s = Inr (w, h)"
  shows "0 \<le> w \<and> 0 \<le> h \<and> (PAPERS (lower U (strip s)) \<noteq> None \<longrightarrow> 0 < w \<and> 0 < h)"
proof (cases "PAPERS (lower U (strip s))")
  case (Some sz)
  with assms have "PAPERS (lower U (strip s)) = Some (w, h)"
    by (simp add: paper_size_of_def Let_def)
  from PAPERS_pos [OF this] Some show ?thesis by simp
next
  case None
  with assms have "parse_custom_paper U s = Inr (w, h)"
    by (simp add: paper_size_of_def Let_def)
  from parse_custom_paper_Inr [OF this] obtain ws hs u where
    w: "w = float_of U ws * mm_per_unit U u * mm"
    and h: "h = float_of U hs * mm_per_unit U u * mm" by blast
  have "0 \<le> w" "0 \<le> h"
    using float_of_nonneg [of U ws] float_of_nonneg [of U hs] mm_per_unit_pos [of U u] mm_pos
    by (simp_all add: w h)
  with None show ?thesis by simp
qed

text \<open>
  A named paper, with a no-break space before the name, and a free-form spec whose width
  is written in Arabic-Indic digits.
\<close>

theorem paper_size_nonneg_witness:
  "paper_size_of sample_unicode (160 # codes ''A4 '') = Inr (210 * mm, 297 * mm) \<and>
   PAPERS (lower sample_unicode (strip (160 # codes ''A4 ''))) \<noteq> None \<and>
   0 < 210 * mm \<and> 0 < 297 * mm \<and>
   paper_size_of sample_unicode ([1640] @ codes ''.5x11in'') = Inr (612, 792) \<and>
   (0::rat) \<le> 612 \<and> (0::rat) \<le> 792"
proof -
  have a: "paper_size_of sample_unicode (160 # codes ''A4 '') = Inr (210 * mm, 297 * mm)"
    by code_simp
  have b: "paper_size_of sample_unicode ([1640] @ codes ''.5x11in'') = Inr (612, 792)"
    by code_simp
  have c: "PAPERS (lower sample_unicode (strip (160 # codes ''A4 ''))) \<noteq> None" by code_simp
  from paper_size_nonneg [OF a] paper_size_nonneg [OF b] a b c show ?thesis by simp
qed

text \<open>The spec string \<open>0x0\<close> is accepted, and its paper has no extent.\<close>

theorem paper_size_zero:
  "paper_size_of sample_unicode (codes ''0x0'') = Inr (0, 0)"
  by code_simp

text \<open>
  C6. The millimetre, the centimetre and the inch path agree. A paper that
  \<open>parse_custom_paper\<close> returns has, on each side, the number written for it times the
  millimetres in the unit, in points. So two specs that the parser accepts differ, in
  points, by what the lengths they write differ in millimetres, whatever their units:
  specs of equal physical size give equal papers, and a number of inches that is cut
  after some decimal places gives a paper that is off by what was cut. The arithmetic is
  that of the rationals; the rounding of the floating-point operations, the tolerance the
  claim allows for, is not part of the statement.
\<close>

theorem unit_paths_agree:
  assumes "re_match_paper U s = Some (ws, hs, u)"
      and "parse_custom_paper U s = Inr (w, h)"
      and "re_match_paper U s' = Some (ws', hs', u')"
      and "parse_custom_paper U s' = Inr (w', h')"
  shows "w = float_of U ws * mm_per_unit U u * mm \<and>
         h = float_of U hs * mm_per_unit U u * mm \<and>
         w - w' = (float_of U ws * mm_per_unit U u - float_of U ws' * mm_per_unit U u') * mm \<and>
         h - h' = (float_of U hs * mm_per_unit U u - float_of U hs' * mm_per_unit U u') * mm \<and>
         (float_of U ws * mm_per_unit U u = float_of U ws' * mm_per_unit U u' \<longrightarrow> w = w') \<and>
         (float_of U hs * mm_per_unit U u = float_of U hs' * mm_per_unit U u' \<longrightarrow> h = h')"
proof -
  from parse_custom_paper_Inr [OF assms(2)] assms(1)
  have a: "w = float_of U ws * mm_per_unit U u * mm"
    and b: "h = float_of U hs * mm_per_unit U u * mm" by simp_all
  from parse_custom_paper_Inr [OF assms(4)] assms(3)
  have c: "w' = float_of U ws' * mm_per_unit U u' * mm"
    and d: "h' = float_of U hs' * mm_per_unit U u' * mm" by simp_all
  show ?thesis unfolding a b c d by (simp add: algebra_simps)
qed

text \<open>
  The A4 paper in millimetres and in centimetres, and the Letter paper in inches and in
  millimetres.
\<close>

theorem unit_paths_agree_witness:
  "re_match_paper sample_unicode (codes ''210x297mm'')
     = Some (codes ''210'', codes ''297'', Some (codes ''mm'')) \<and>
   re_match_paper sample_unicode (codes ''21x29.7cm'')
     = Some (codes ''21'', codes ''29.7'', Some (codes ''cm'')) \<and>
   re_match_paper sample_unicode (codes ''8.5x11in'')
     = Some (codes ''8.5'', codes ''11'', Some (codes ''in'')) \<and>
   re_match_paper sample_unicode (codes ''215.9 x 279.4'')
     = Some (codes ''215.9'', codes ''279.4'', None) \<and>
   parse_custom_paper sample_unicode (codes ''210x297mm'') = Inr (210 * mm, 297 * mm) \<and>
   parse_custom_paper sample_unicode (codes ''21x29.7cm'') = Inr (210 * mm, 297 * mm) \<and>
   parse_custom_paper sample_unicode (codes ''8.5x11in'') = Inr (612, 792) \<and>
   parse_custom_paper sample_unicode (codes ''215.9 x 279.4'') = Inr (612, 792) \<and>
   210 * mm = float_of sample_unicode (codes ''21'')
                * mm_per_unit sample_unicode (Some (codes ''cm'')) * mm \<and>
   612 = float_of sample_unicode (codes ''8.5'')
           * mm_per_unit sample_unicode (Some (codes ''in'')) * mm"
proof -
  have m1: "re_match_paper sample_unicode (codes ''210x297mm'')
            = Some (codes ''210'', codes ''297'', Some (codes ''mm''))" by code_simp
  have m2: "re_match_paper sample_unicode (codes ''21x29.7cm'')
            = Some (codes ''21'', codes ''29.7'', Some (codes ''cm''))" by code_simp
  have m3: "re_match_paper sample_unicode (codes ''8.5x11in'')
            = Some (codes ''8.5'', codes ''11'', Some (codes ''in''))" by code_simp
  have m4: "re_match_paper sample_unicode (codes ''215.9 x 279.4'')
            = Some (codes ''215.9'', codes ''279.4'', None)" by code_simp
  have p1: "parse_custom_paper sample_unicode (codes ''210x297mm'') = Inr (210 * mm, 297 * mm)"
    by code_simp
  have p2: "parse_custom_paper sample_unicode (codes ''21x29.7cm'') = Inr (210 * mm, 297 * mm)"
    by code_simp
  have p3: "parse_custom_paper sample_unicode (codes ''8.5x11in'') = Inr (612, 792)"
    by code_simp
  have p4: "parse_custom_paper sample_unicode (codes ''215.9 x 279.4'') = Inr (612, 792)"
    by code_simp
  from unit_paths_agree [OF m2 p2 m1 p1] unit_paths_agree [OF m3 p3 m4 p4] m1 m2 m3 m4 p1 p2 p3 p4
  show ?thesis by simp
qed
subsection \<open>Pages\<close>

lemma paged_append:
  "paged c (a @ b) = paged c a @ paged (c + length (filter (\<lambda>e. e = ShowPage) a)) b"
  by (induction a arbitrary: c) simp_all

lemma paged_no_break: "ShowPage \<notin> set a \<Longrightarrow> paged c a = map (Pair c) a"
  by (induction a) auto

lemma no_break_count: "ShowPage \<notin> set a \<Longrightarrow> filter (\<lambda>e. e = ShowPage) a = []"
  by (induction a) auto

lemma on_page_append:
  "on_page p c (a @ b) = on_page p c a @ on_page p (c + length (filter (\<lambda>e. e = ShowPage) a)) b"
  by (simp add: on_page_def paged_append)

lemma on_page_no_break: "ShowPage \<notin> set a \<Longrightarrow> on_page p c a = (if c = p then a else [])"
  by (induction a) (auto simp: on_page_def paged_no_break)

lemma on_page_break: "on_page p c (ShowPage # a) = on_page p (Suc c) a"
  by (simp add: on_page_def)

text \<open>The decoration of a page holds no page break and no image; its lines are the crop marks.\<close>

lemma draw_crop_marks_plain:
  "ShowPage \<notin> set (draw_crop_marks x y w h ml off) \<and>
   filter is_image (draw_crop_marks x y w h ml off) = [] \<and>
   filter is_line (draw_crop_marks x y w h ml off) = tl (draw_crop_marks x y w h ml off) \<and>
   length (tl (draw_crop_marks x y w h ml off)) = 8"
  by (simp add: draw_crop_marks_def is_image_def is_line_def)

lemma all_crop_marks_plain:
  "ShowPage \<notin> set (all_crop_marks L) \<and> filter is_image (all_crop_marks L) = []"
  by (auto simp: all_crop_marks_def filter_concat draw_crop_marks_plain comp_def)

lemma draw_black_borders_plain:
  "ShowPage \<notin> set (draw_black_borders r c x y w h dx dy g) \<and>
   filter is_image (draw_black_borders r c x y w h dx dy g) = [] \<and>
   filter is_line (draw_black_borders r c x y w h dx dy g) = []"
  by (auto simp: draw_black_borders_def Let_def is_image_def is_line_def filter_map comp_def)

lemma page_start_0_plain:
  "ShowPage \<notin> set (page_start L 0) \<and> filter is_image (page_start L 0) = [] \<and>
   filter is_line (page_start L 0)
     = (if l_cropmarks L then filter is_line (all_crop_marks L) else [])"
  by (simp add: page_start_def draw_black_borders_plain all_crop_marks_plain)

lemma page_start_pos:
  "0 < i \<Longrightarrow> page_start L i
     = ShowPage # (if l_rotated L then [Translate 0 (l_ph L), Rotate 90] else [])
       @ page_start L 0"
  by (simp add: page_start_def)

lemma place_plain: "place L loads i img \<noteq> ShowPage \<and> is_image (place L loads i img) \<and>
  \<not> is_line (place L loads i img)"
  by (simp add: place_def is_image_def is_line_def)

text \<open>
  The loop's test and the page of an image in natural numbers; \<open>K\<close> is \<open>per_page\<close>.
\<close>

lemma per_page_nat:
  assumes "0 < per_page L"
  shows "(int i mod per_page L = 0) = (i mod nat (per_page L) = 0)"
    and "nat (int i div per_page L) = i div nat (per_page L)"
proof -
  from assms obtain K where K: "per_page L = int K" "0 < K"
    by (metis zero_less_imp_eq_int)
  show "(int i mod per_page L = 0) = (i mod nat (per_page L) = 0)"
    unfolding K by (simp add: zmod_int [symmetric])
  show "nat (int i div per_page L) = i div nat (per_page L)"
    unfolding K by (simp add: zdiv_int [symmetric])
qed

lemma div_rem_nat:
  fixes K q r :: nat
  assumes "r < K"
  shows "(K * q + r) div K = q"
  using assms by simp

lemma pred_div:
  fixes i K :: nat
  assumes "0 < K"
  shows "(i - 1) div K + (if i mod K = 0 \<and> 0 < i then 1 else 0) = i div K"
proof (cases "i mod K = 0 \<and> 0 < i")
  case True
  then obtain q where q: "i = K * q" by (auto simp: mod_eq_0_iff_dvd)
  with True assms have "0 < q" by (cases q) auto
  then obtain q' where q': "q = Suc q'" by (cases q) auto
  have e: "i - 1 = K * q' + (K - 1)" using assms by (simp add: q q')
  have "K - 1 < K" using assms by simp
  then have "(K * q' + (K - 1)) div K = q'" by (rule div_rem_nat)
  then have "(i - 1) div K = q'" unfolding e .
  moreover have "i div K = q" using assms by (simp add: q)
  ultimately show ?thesis using True q' by simp
next
  case False
  show ?thesis
  proof (cases "i = 0")
    case True
    then show ?thesis by simp
  next
    case nz: False
    with False have m: "0 < i mod K" by simp
    have "K * (i div K) + i mod K = i" by simp
    with m have e: "i - 1 = K * (i div K) + (i mod K - 1)" by linarith
    have "i mod K - 1 < K" using assms
      by (meson less_imp_diff_less mod_less_divisor)
    then have "(K * (i div K) + (i mod K - 1)) div K = i div K" by (rule div_rem_nat)
    then have "(i - 1) div K = i div K" unfolding e .
    with False show ?thesis by simp
  qed
qed

text \<open>
  The page breaks of the loop. Before image \<open>i\<close> the run is on page \<open>(i - 1) div K\<close>, and
  the loop puts image \<open>i\<close> on page \<open>i div K\<close>.
\<close>

lemma loop_head:
  assumes "0 < per_page L"
  shows "draw_loop L loads i (img # imgs)
         = (if i mod nat (per_page L) = 0 then page_start L i else [])
           @ place L loads i img # draw_loop L loads (Suc i) imgs"
  by (simp add: per_page_nat(1) [OF assms])

lemma head_breaks:
  assumes K: "0 < K"
  shows "(i - 1) div K
         + length (filter (\<lambda>e. e = ShowPage) (if i mod K = 0 then page_start L i else []))
         = i div K"
proof (cases "0 < i")
  case True
  then show ?thesis
    using pred_div [OF K, of i] page_start_0_plain [of L]
    by (auto simp: page_start_pos no_break_count split: if_splits)
next
  case False
  then show ?thesis
    using page_start_0_plain [of L] by (simp add: no_break_count)
qed

lemma loop_breaks:
  assumes pp: "0 < per_page L"
  shows "(i - 1) div nat (per_page L)
         + length (filter (\<lambda>e. e = ShowPage) (draw_loop L loads i imgs))
         = (i + length imgs - 1) div nat (per_page L)"
proof (induction imgs arbitrary: i)
  case Nil
  show ?case by simp
next
  case (Cons img imgs)
  from pp have K: "0 < nat (per_page L)" by simp
  have "(i - 1) div nat (per_page L)
        + length (filter (\<lambda>e. e = ShowPage) (draw_loop L loads i (img # imgs)))
        = i div nat (per_page L)
          + length (filter (\<lambda>e. e = ShowPage) (draw_loop L loads (Suc i) imgs))"
    unfolding loop_head [OF pp] using head_breaks [OF K, of i L] place_plain [of L loads i img]
    by simp
  also have "\<dots> = (Suc i + length imgs - 1) div nat (per_page L)"
    using Cons.IH [of "Suc i"] by simp
  finally show ?case by simp
qed

lemma paged_subset: "snd ` set (paged c a) \<subseteq> set a"
  by (induction a arbitrary: c) auto

lemma paged_filter_empty:
  assumes "filter P a = []"
  shows "filter (\<lambda>qe. P (snd qe)) (paged c a) = []"
proof -
  from assms have "\<forall>e \<in> set a. \<not> P e" by (simp add: filter_empty_conv)
  with paged_subset [of c a] have "\<forall>qe \<in> set (paged c a). \<not> P (snd qe)" by auto
  then show ?thesis by (simp add: filter_empty_conv)
qed

lemma on_page_filter_empty:
  assumes "filter P a = []"
  shows "filter P (on_page p c a) = []"
proof -
  have "filter P (on_page p c a)
        = map snd (filter (\<lambda>qe. P (snd qe)) (filter (\<lambda>qe. fst qe = p) (paged c a)))"
    by (simp add: on_page_def filter_map comp_def)
  also have "\<dots> = map snd (filter (\<lambda>qe. fst qe = p) (filter (\<lambda>qe. P (snd qe)) (paged c a)))"
    by (simp add: conj_commute)
  also have "\<dots> = []" by (simp add: paged_filter_empty [OF assms])
  finally show ?thesis .
qed

lemma on_page_cons:
  "e \<noteq> ShowPage \<Longrightarrow> on_page p c (e # es) = (if c = p then [e] else []) @ on_page p c es"
  by (simp add: on_page_def)

lemma page_start_plain:
  "filter is_image (if i mod K = 0 then page_start L i else []) = []"
proof (cases "0 < i")
  case True
  then show ?thesis
    using page_start_0_plain [of L] by (simp add: page_start_pos is_image_def)
next
  case False
  then show ?thesis using page_start_0_plain [of L] by simp
qed

text \<open>Where the loop puts the images: image \<open>j\<close> on page \<open>j div K\<close>, at the slot of \<open>j\<close>.\<close>

lemma loop_placed:
  assumes pp: "0 < per_page L"
  shows "filter (\<lambda>qe. is_image (snd qe))
           (paged ((i - 1) div nat (per_page L)) (draw_loop L loads i imgs))
         = map (\<lambda>(j, img). (j div nat (per_page L), place L loads j img)) (enumerate i imgs)"
proof (induction imgs arbitrary: i)
  case Nil
  show ?case by simp
next
  case (Cons img imgs)
  from pp have K: "0 < nat (per_page L)" by simp
  define hdr where "hdr = (if i mod nat (per_page L) = 0 then page_start L i else [])"
  have h1: "filter (\<lambda>qe. is_image (snd qe)) (paged ((i - 1) div nat (per_page L)) hdr) = []"
    unfolding hdr_def by (rule paged_filter_empty [OF page_start_plain])
  have h2: "(i - 1) div nat (per_page L) + length (filter (\<lambda>e. e = ShowPage) hdr)
            = i div nat (per_page L)"
    unfolding hdr_def by (rule head_breaks [OF K])
  have "filter (\<lambda>qe. is_image (snd qe))
          (paged ((i - 1) div nat (per_page L)) (draw_loop L loads i (img # imgs)))
        = (i div nat (per_page L), place L loads i img)
          # filter (\<lambda>qe. is_image (snd qe))
              (paged (i div nat (per_page L)) (draw_loop L loads (Suc i) imgs))"
    unfolding loop_head [OF pp] hdr_def [symmetric]
    using place_plain [of L loads i img] by (simp add: paged_append h1 h2 del: One_nat_def)
  also have "filter (\<lambda>qe. is_image (snd qe))
              (paged (i div nat (per_page L)) (draw_loop L loads (Suc i) imgs))
        = map (\<lambda>(j, img). (j div nat (per_page L), place L loads j img)) (enumerate (Suc i) imgs)"
    using Cons.IH [of "Suc i"] by simp
  finally show ?case by simp
qed

text \<open>
  The lines on page \<open>p\<close>: those of the decoration, when the loop starts that page.
\<close>

lemma head_lines:
  assumes K: "0 < K"
  shows "filter is_line (on_page p ((i - 1) div K) (if i mod K = 0 then page_start L i else []))
         = (if i = p * K then filter is_line (page_start L 0) else [])"
proof (cases "i mod K = 0")
  case False
  then have "i \<noteq> p * K" by auto
  with False show ?thesis by (simp add: on_page_def)
next
  case True
  with K have e: "(i = p * K) = (i div K = p)" by auto
  show ?thesis
  proof (cases "0 < i")
    case False
    with K show ?thesis
      using page_start_0_plain [of L] by (auto simp: on_page_no_break)
  next
    case pos: True
    have s: "Suc ((i - 1) div K) = i div K"
      using pred_div [OF K, of i] True pos by simp
    have n: "ShowPage \<notin> set ((if l_rotated L then [Translate 0 (l_ph L), Rotate 90] else [])
                 @ page_start L 0)"
      using page_start_0_plain [of L] by simp
    show ?thesis
      using True pos
      by (simp add: page_start_pos on_page_break s on_page_no_break [OF n] e is_line_def
            del: One_nat_def)
  qed
qed

lemma loop_lines:
  assumes pp: "0 < per_page L"
  shows "filter is_line (on_page p ((i - 1) div nat (per_page L)) (draw_loop L loads i imgs))
         = (if i \<le> p * nat (per_page L) \<and> p * nat (per_page L) < i + length imgs
            then filter is_line (page_start L 0) else [])"
proof (induction imgs arbitrary: i)
  case Nil
  show ?case by (auto simp: on_page_def)
next
  case (Cons img imgs)
  from pp have K: "0 < nat (per_page L)" by simp
  define hdr where "hdr = (if i mod nat (per_page L) = 0 then page_start L i else [])"
  have h1: "filter is_line (on_page p ((i - 1) div nat (per_page L)) hdr)
            = (if i = p * nat (per_page L) then filter is_line (page_start L 0) else [])"
    unfolding hdr_def by (rule head_lines [OF K])
  have h2: "(i - 1) div nat (per_page L) + length (filter (\<lambda>e. e = ShowPage) hdr)
            = i div nat (per_page L)"
    unfolding hdr_def by (rule head_breaks [OF K])
  have "draw_loop L loads i (img # imgs)
        = hdr @ [place L loads i img] @ draw_loop L loads (Suc i) imgs"
    unfolding loop_head [OF pp] hdr_def by simp
  then have "filter is_line (on_page p ((i - 1) div nat (per_page L))
               (draw_loop L loads i (img # imgs)))
        = (if i = p * nat (per_page L) then filter is_line (page_start L 0) else [])
          @ filter is_line (on_page p (i div nat (per_page L)) (draw_loop L loads (Suc i) imgs))"
    using place_plain [of L loads i img]
    by (simp add: on_page_append h1 h2 on_page_cons del: draw_loop.simps One_nat_def)
  also have "filter is_line (on_page p (i div nat (per_page L)) (draw_loop L loads (Suc i) imgs))
        = (if Suc i \<le> p * nat (per_page L) \<and> p * nat (per_page L) < Suc i + length imgs
           then filter is_line (page_start L 0) else [])"
    using Cons.IH [of "Suc i"] by simp
  finally show ?case by auto
qed

subsection \<open>The run of \<open>make_pdf\<close>\<close>



text \<open>Once the grid is known, the run is the canvas, the loop and the save.\<close>

lemma make_pdf_eq:
  assumes grid: "compute_grid pw ph margin_mm gap_mm orient = Inr (rows, cols, x0, y0, rot)"
  shows "make_pdf loads imgs out (pw, ph) margin_mm gap_mm cropm orient bb
         = (NewCanvas out (pw, ph) # (if rot then [Translate 0 ph, Rotate 90] else [])
              @ draw_loop (plan_locals (pw, ph) gap_mm cropm bb (rows, cols, x0, y0, rot)) loads 0 imgs
              @ [Save],
            Inr (rows, cols, rows * cols))"
proof (cases rot)
  case True
  with grid have "compute_grid ph pw margin_mm gap_mm Portrait = Inr (rows, cols, x0, y0, False)"
    by (simp add: compute_grid_rotated)
  with grid True show ?thesis
    by (simp add: make_pdf_def plan_locals_def per_page_def)
next
  case False
  with grid show ?thesis
    by (simp add: make_pdf_def plan_locals_def per_page_def)
qed

lemma plan_locals_simps:
  "l_rows (plan_locals sz g cropm bb (rows, cols, x0, y0, rot)) = rows"
  "l_cols (plan_locals sz g cropm bb (rows, cols, x0, y0, rot)) = cols"
  "l_x0 (plan_locals sz g cropm bb (rows, cols, x0, y0, rot)) = x0"
  "l_y0 (plan_locals sz g cropm bb (rows, cols, x0, y0, rot)) = y0"
  "l_gap_mm (plan_locals sz g cropm bb (rows, cols, x0, y0, rot)) = g"
  "l_cropmarks (plan_locals sz g cropm bb (rows, cols, x0, y0, rot)) = cropm"
  "per_page (plan_locals sz g cropm bb (rows, cols, x0, y0, rot)) = rows * cols"
  by (cases sz; simp add: plan_locals_def per_page_def)+

text \<open>
  What surrounds the loop adds no page break, no image and no line, so the pages of the
  run are those of the loop.
\<close>

lemma pre_plain:
  "ShowPage \<notin> set (NewCanvas out sz # (if rot then [Translate 0 ph, Rotate 90] else [])) \<and>
   filter is_image (NewCanvas out sz # (if rot then [Translate 0 ph, Rotate 90] else [])) = [] \<and>
   filter is_line (NewCanvas out sz # (if rot then [Translate 0 ph, Rotate 90] else [])) = []"
  by (simp add: is_image_def is_line_def)

lemma Save_plain: "\<not> is_image Save \<and> \<not> is_line Save"
  by (simp add: is_image_def is_line_def)

lemma run_placed:
  assumes n: "ShowPage \<notin> set pre" and i: "filter is_image pre = []"
  shows "placed (pre @ X @ [Save]) = filter (\<lambda>qe. is_image (snd qe)) (paged 0 X)"
proof -
  have c: "filter (\<lambda>e. e = ShowPage) pre = []" using n by (rule no_break_count)
  have "paged 0 (pre @ X @ [Save]) = paged 0 pre @ paged 0 X
          @ paged (length (filter (\<lambda>e. e = ShowPage) X)) [Save]"
    by (simp add: paged_append c)
  then show ?thesis
    by (simp add: placed_def paged_filter_empty [OF i] Save_plain)
qed

lemma run_pages:
  assumes n: "ShowPage \<notin> set pre"
  shows "n_pages (pre @ X @ [Save]) = Suc (length (filter (\<lambda>e. e = ShowPage) X))"
  using no_break_count [OF n] by (simp add: n_pages_def)

lemma run_lines:
  assumes n: "ShowPage \<notin> set pre" and l: "filter is_line pre = []"
  shows "filter is_line (page_effects p (pre @ X @ [Save])) = filter is_line (on_page p 0 X)"
proof -
  have c: "filter (\<lambda>e. e = ShowPage) pre = []" using n by (rule no_break_count)
  have a: "filter is_line (on_page p 0 pre) = []" by (rule on_page_filter_empty [OF l])
  have b: "filter is_line (on_page p k [Save]) = []" for k
    by (rule on_page_filter_empty) (simp add: Save_plain)
  have "on_page p 0 (pre @ X @ [Save]) = on_page p 0 pre @ on_page p 0 X
          @ on_page p (length (filter (\<lambda>e. e = ShowPage) X)) [Save]"
    by (simp add: on_page_append c)
  then show ?thesis by (simp add: page_effects_def a b)
qed

text \<open>\<open>math.ceil(total / per_page)\<close> for a positive total.\<close>

lemma neg_div_int:
  fixes a b :: int
  assumes "0 < b"
  shows "- (- a div b) = (a - 1) div b + 1"
proof -
  define q where "q = (a - 1) div b"
  define r where "r = (a - 1) mod b"
  have d: "a - 1 = b * q + r" by (simp add: q_def r_def)
  have r: "0 \<le> r" "r < b" using assms by (simp_all add: r_def)
  have "- a = b * (- q - 1) + (b - r - 1)" using d by (simp add: algebra_simps)
  moreover have "0 \<le> b - r - 1" "b - r - 1 < b" using r by simp_all
  ultimately have "- a div b = - q - 1" by (rule int_div_pos_eq)
  then show ?thesis by (simp add: q_def)
qed

lemma page_count_eq:
  assumes "0 < K" and "0 < n"
  shows "page_count (int n) (int K) = int (Suc ((n - 1) div K))"
proof -
  have "page_count (int n) (int K) = - (- int n div int K)"
    unfolding page_count_def by (rule ceiling_divide_eq_div)
  also have "\<dots> = (int n - 1) div int K + 1" using assms by (simp add: neg_div_int)
  also have "int n - 1 = int (n - 1)" using assms by simp
  also have "int (n - 1) div int K = int ((n - 1) div K)" by (simp add: zdiv_int)
  finally show ?thesis by simp
qed

text \<open>The crop marks of a page, cell by cell.\<close>

lemma concat_product:
  "concat (map (\<lambda>r. concat (map (f r) cs)) rs) = concat (map (\<lambda>(r, c). f r c) (List.product rs cs))"
  by (induction rs) (simp_all add: comp_def)

lemma length_concat_const:
  assumes "\<forall>x \<in> set xs. length (f x) = n"
  shows "length (concat (map f xs)) = n * length xs"
  using assms by (induction xs) simp_all

lemma crop_lines:
  "filter is_line (all_crop_marks L)
   = concat (map (\<lambda>(grid_row, grid_col).
       tl (draw_crop_marks (l_x0 L + of_int grid_col * l_dx L)
                           (l_y0 L + of_int (l_rows L - 1 - grid_row) * l_dy L)
                           (l_w L) (l_h L) (5 * mm) (0 * mm)))
       (List.product [0..l_rows L - 1] [0..l_cols L - 1]))"
  unfolding all_crop_marks_def concat_product
  by (simp add: filter_concat comp_def draw_crop_marks_plain case_prod_unfold)

lemma crop_lines_length:
  assumes "1 \<le> l_rows L" and "1 \<le> l_cols L"
  shows "int (length (filter is_line (all_crop_marks L))) = 8 * (l_rows L * l_cols L)"
proof -
  have "length (filter is_line (all_crop_marks L))
        = 8 * length (List.product [0..l_rows L - 1] [0..l_cols L - 1])"
    unfolding crop_lines
    by (rule length_concat_const) (auto simp: draw_crop_marks_def)
  also have "\<dots> = 8 * (nat (l_rows L) * nat (l_cols L))" by simp
  finally have "int (length (filter is_line (all_crop_marks L)))
                = 8 * (int (nat (l_rows L)) * int (nat (l_cols L)))" by simp
  with assms show ?thesis by simp
qed


text \<open>The run as the theorems below need it: the loop from image 0 on.\<close>

lemma run_facts:
  assumes grid: "compute_grid pw ph margin_mm gap_mm orient = Inr (rows, cols, x0, y0, rot)"
  shows "\<exists>effs. make_pdf loads imgs out (pw, ph) margin_mm gap_mm cropm orient bb
                  = (effs, Inr (rows, cols, rows * cols)) \<and>
           last effs = Save \<and>
           placed effs
             = map (\<lambda>(j, img). (j div nat (rows * cols),
                      place (plan_locals (pw, ph) gap_mm cropm bb (rows, cols, x0, y0, rot))
                            loads j img))
                   (enumerate 0 imgs) \<and>
           n_pages effs = Suc ((length imgs - 1) div nat (rows * cols)) \<and>
           (\<forall>p. filter is_line (page_effects p effs)
                = (if p * nat (rows * cols) < length imgs
                   then filter is_line
                          (page_start (plan_locals (pw, ph) gap_mm cropm bb
                                         (rows, cols, x0, y0, rot)) 0)
                   else []))"
proof -
  define L where "L = plan_locals (pw, ph) gap_mm cropm bb (rows, cols, x0, y0, rot)"
  define pre where "pre = NewCanvas out (pw, ph) # (if rot then [Translate 0 ph, Rotate 90] else [])"
  define effs where "effs = pre @ draw_loop L loads 0 imgs @ [Save]"
  from compute_grid_pos [OF grid] have "0 < rows * cols" by simp
  then have pp: "0 < per_page L" by (simp add: L_def plan_locals_simps)
  have K: "nat (per_page L) = nat (rows * cols)" by (simp add: L_def plan_locals_simps)
  have pl: "ShowPage \<notin> set pre" "filter is_image pre = []" "filter is_line pre = []"
    unfolding pre_def using pre_plain [of out "(pw, ph)" rot ph] by simp_all
  have m: "make_pdf loads imgs out (pw, ph) margin_mm gap_mm cropm orient bb
           = (effs, Inr (rows, cols, rows * cols))"
    unfolding effs_def pre_def L_def by (simp add: make_pdf_eq [OF grid])
  have l: "last effs = Save" by (simp add: effs_def)
  have "placed effs = filter (\<lambda>qe. is_image (snd qe)) (paged 0 (draw_loop L loads 0 imgs))"
    unfolding effs_def by (rule run_placed [OF pl(1) pl(2)])
  also have "\<dots> = map (\<lambda>(j, img). (j div nat (per_page L), place L loads j img))
                      (enumerate 0 imgs)"
    using loop_placed [OF pp, of 0 loads imgs] by simp
  finally have p: "placed effs
      = map (\<lambda>(j, img). (j div nat (rows * cols), place L loads j img)) (enumerate 0 imgs)"
    unfolding K .
  have "n_pages effs = Suc (length (filter (\<lambda>e. e = ShowPage) (draw_loop L loads 0 imgs)))"
    unfolding effs_def by (rule run_pages [OF pl(1)])
  also have "length (filter (\<lambda>e. e = ShowPage) (draw_loop L loads 0 imgs))
             = (length imgs - 1) div nat (per_page L)"
    using loop_breaks [OF pp, of 0 loads imgs] by simp
  finally have n: "n_pages effs = Suc ((length imgs - 1) div nat (rows * cols))"
    unfolding K .
  have q: "filter is_line (page_effects p effs)
           = (if p * nat (rows * cols) < length imgs
              then filter is_line (page_start L 0) else [])" for p
  proof -
    have "filter is_line (page_effects p effs)
          = filter is_line (on_page p 0 (draw_loop L loads 0 imgs))"
      unfolding effs_def by (rule run_lines [OF pl(1) pl(3)])
    also have "\<dots> = (if p * nat (per_page L) < length imgs
                       then filter is_line (page_start L 0) else [])"
      using loop_lines [OF pp, of p 0 loads imgs] by simp
    finally show ?thesis unfolding K .
  qed
  from m l p n q show ?thesis unfolding L_def by blast
qed

lemma place_plan:
  "place (plan_locals (pw, ph) gap_mm cropm bb (rows, cols, x0, y0, rot)) loads i img
   = (if loads img
      then DrawImage img
             (x0 + of_int ((int i mod (rows * cols)) mod cols) * (CARD_W_MM * mm + gap_mm * mm))
             (y0 + of_int (rows - 1 - (int i mod (rows * cols)) div cols)
                   * (CARD_H_MM * mm + gap_mm * mm))
             (CARD_W_MM * mm) (CARD_H_MM * mm)
      else Warn img)"
  by (simp add: place_def slot_x_def slot_y_def slot_row_def slot_col_def l_dx_def l_dy_def
        l_w_def l_h_def plan_locals_simps)

text \<open>
  C2. With the grid of the run, image \<open>i\<close> (counted from 0) is handled on page
  \<open>i div perPage\<close>, and drawn at the place of row \<open>slot div cols\<close> (counted from the top)
  and column \<open>slot mod cols\<close> of the grid, where \<open>slot = i mod perPage\<close> and
  \<open>perPage = rows * cols\<close>; a run with images has \<open>ceil(imageCount / perPage)\<close> pages,
  the number \<open>main\<close> reports; and row and column repeat with period \<open>perPage\<close>.
\<close>

theorem pagination:
  assumes grid: "compute_grid pw ph margin_mm gap_mm orient = Inr (rows, cols, x0, y0, rot)"
  shows "\<exists>effs.
           make_pdf loads imgs out (pw, ph) margin_mm gap_mm cropm orient bb
             = (effs, Inr (rows, cols, rows * cols)) \<and>
           placed effs
             = map (\<lambda>(i, img).
                 (i div nat (rows * cols),
                  if loads img
                  then DrawImage img
                         (x0 + of_int ((int i mod (rows * cols)) mod cols)
                               * (CARD_W_MM * mm + gap_mm * mm))
                         (y0 + of_int (rows - 1 - (int i mod (rows * cols)) div cols)
                               * (CARD_H_MM * mm + gap_mm * mm))
                         (CARD_W_MM * mm) (CARD_H_MM * mm)
                  else Warn img))
                 (enumerate 0 imgs) \<and>
           (imgs \<noteq> [] \<longrightarrow>
              int (n_pages effs) = page_count (int (length imgs)) (rows * cols)) \<and>
           (\<forall>i. (int (i + nat (rows * cols)) mod (rows * cols)) div cols
                  = (int i mod (rows * cols)) div cols \<and>
                (int (i + nat (rows * cols)) mod (rows * cols)) mod cols
                  = (int i mod (rows * cols)) mod cols)"
proof -
  from compute_grid_pos [OF grid] have pos: "0 < rows * cols" by simp
  from run_facts [OF grid, of loads imgs out cropm bb] obtain effs where
    m: "make_pdf loads imgs out (pw, ph) margin_mm gap_mm cropm orient bb
        = (effs, Inr (rows, cols, rows * cols))"
    and p: "placed effs
        = map (\<lambda>(j, img). (j div nat (rows * cols),
                 place (plan_locals (pw, ph) gap_mm cropm bb (rows, cols, x0, y0, rot))
                       loads j img))
              (enumerate 0 imgs)"
    and n: "n_pages effs = Suc ((length imgs - 1) div nat (rows * cols))"
    by blast
  have c: "int (n_pages effs) = page_count (int (length imgs)) (rows * cols)" if "imgs \<noteq> []"
  proof -
    from that have "0 < length imgs" by simp
    moreover from pos have "0 < nat (rows * cols)" by simp
    ultimately have "page_count (int (length imgs)) (int (nat (rows * cols)))
                     = int (Suc ((length imgs - 1) div nat (rows * cols)))"
      by (intro page_count_eq)
    with pos n show ?thesis by simp
  qed
  have "int (i + nat (rows * cols)) mod (rows * cols) = int i mod (rows * cols)" for i
    using pos by simp
  then have cyc: "\<forall>i. (int (i + nat (rows * cols)) mod (rows * cols)) div cols
                  = (int i mod (rows * cols)) div cols \<and>
                (int (i + nat (rows * cols)) mod (rows * cols)) mod cols
                  = (int i mod (rows * cols)) mod cols"
    by simp
  from p have p': "placed effs
             = map (\<lambda>(i, img).
                 (i div nat (rows * cols),
                  if loads img
                  then DrawImage img
                         (x0 + of_int ((int i mod (rows * cols)) mod cols)
                               * (CARD_W_MM * mm + gap_mm * mm))
                         (y0 + of_int (rows - 1 - (int i mod (rows * cols)) div cols)
                               * (CARD_H_MM * mm + gap_mm * mm))
                         (CARD_W_MM * mm) (CARD_H_MM * mm)
                  else Warn img))
                 (enumerate 0 imgs)"
    unfolding place_plan .
  from m p' c cyc show ?thesis by blast
qed

text \<open>Ten images on an A4 page.\<close>

theorem pagination_witness:
  "compute_grid (210 * mm) (297 * mm) 5 3 Auto = Inr (3, 3, 2700 / 127, 4860 / 127, False) \<and>
   (\<exists>effs.
      make_pdf top [''01.png'', ''02.png'', ''03.png'', ''04.png'', ''05.png'', ''06.png'',
                    ''07.png'', ''08.png'', ''09.png'', ''10.png'']
               ''cards_print.pdf'' (210 * mm, 297 * mm) 5 3 False Auto False
        = (effs, Inr (3, 3, 3 * 3)) \<and>
      int (n_pages effs) = page_count 10 (3 * 3)) \<and>
   page_count 10 (3 * 3) = 2"
proof -
  define imgs where "imgs = [''01.png'', ''02.png'', ''03.png'', ''04.png'', ''05.png'',
    ''06.png'', ''07.png'', ''08.png'', ''09.png'', ''10.png'']"
  have g: "compute_grid (210 * mm) (297 * mm) 5 3 Auto
           = Inr (3, 3, 2700 / 127, 4860 / 127, False)" by code_simp
  have c: "page_count 10 (3 * 3) = 2" by code_simp
  have ne: "imgs \<noteq> []" and len: "int (length imgs) = 10" by (simp_all add: imgs_def)
  from pagination [OF g, of top imgs "''cards_print.pdf''" False False] obtain effs where
    m: "make_pdf top imgs ''cards_print.pdf'' (210 * mm, 297 * mm) 5 3 False Auto False
        = (effs, Inr (3, 3, 3 * 3))"
    and n: "imgs \<noteq> [] \<longrightarrow> int (n_pages effs) = page_count (int (length imgs)) (3 * 3)"
    by blast
  from n ne len have "int (n_pages effs) = page_count 10 (3 * 3)" by simp
  with m have "\<exists>effs. make_pdf top imgs ''cards_print.pdf'' (210 * mm, 297 * mm) 5 3 False Auto False
        = (effs, Inr (3, 3, 3 * 3)) \<and> int (n_pages effs) = page_count 10 (3 * 3)" by blast
  with g c show ?thesis unfolding imgs_def by blast
qed

subsection \<open>Crop marks\<close>

text \<open>
  The eight lines \<open>draw_crop_marks\<close> draws with marks of length \<open>k\<close> and no offset: at each
  corner of the cell one horizontal and one vertical line of length \<open>k\<close> that ends in the
  corner and points away from the cell.
\<close>

lemma cell_lines:
  "tl (draw_crop_marks x y w h k (0 * mm))
   = [Line (x - k) y x y, Line x (y - k) x y,
      Line (x + w) y (x + w + k) y, Line (x + w) (y - k) (x + w) y,
      Line (x - k) (y + h) x (y + h), Line x (y + h) x (y + h + k),
      Line (x + w) (y + h) (x + w + k) (y + h), Line (x + w) (y + h) (x + w) (y + h + k)]"
  by (simp add: draw_crop_marks_def)

lemma cell_lines_corner:
  assumes "0 \<le> k" and "e \<in> set (tl (draw_crop_marks x y w h k (0 * mm)))"
  shows "corner_mark x y w h k e"
  using assms unfolding cell_lines by (auto simp: corner_mark_def)

text \<open>
  C5. With crop marks enabled, every page of a run with images, the last one included,
  carries the marks of every cell of the grid and no other line, whatever the number of
  images on the page and whether they could be drawn: for each of the \<open>rows * cols\<close>
  cells, in the order of the grid, the eight lines written out below, \<open>8 * rows * cols\<close>
  lines in all, and each of them is a mark of 5 mm at a corner of its cell that lies
  outside the cell. The coordinates are those of exact arithmetic.
\<close>

theorem crop_marks_every_page:
  assumes grid: "compute_grid pw ph margin_mm gap_mm orient = Inr (rows, cols, x0, y0, rot)"
      and ne: "imgs \<noteq> []"
  shows "\<exists>effs.
           make_pdf loads imgs out (pw, ph) margin_mm gap_mm True orient bb
             = (effs, Inr (rows, cols, rows * cols)) \<and>
           n_pages effs = Suc ((length imgs - 1) div nat (rows * cols)) \<and>
           (\<forall>p < n_pages effs.
              filter is_line (page_effects p effs)
                = concat (map (\<lambda>(grid_row, grid_col).
                    (let x = x0 + of_int grid_col * (CARD_W_MM * mm + gap_mm * mm);
                         y = y0 + of_int (rows - 1 - grid_row) * (CARD_H_MM * mm + gap_mm * mm);
                         w = CARD_W_MM * mm; h = CARD_H_MM * mm; k = 5 * mm
                     in [Line (x - k) y x y, Line x (y - k) x y,
                         Line (x + w) y (x + w + k) y, Line (x + w) (y - k) (x + w) y,
                         Line (x - k) (y + h) x (y + h), Line x (y + h) x (y + h + k),
                         Line (x + w) (y + h) (x + w + k) (y + h),
                         Line (x + w) (y + h) (x + w) (y + h + k)]))
                    (List.product [0..rows - 1] [0..cols - 1])) \<and>
              int (length (filter is_line (page_effects p effs))) = 8 * (rows * cols) \<and>
              (\<forall>e \<in> set (filter is_line (page_effects p effs)).
                 \<exists>grid_row \<in> {0..rows - 1}. \<exists>grid_col \<in> {0..cols - 1}.
                   corner_mark (x0 + of_int grid_col * (CARD_W_MM * mm + gap_mm * mm))
                     (y0 + of_int (rows - 1 - grid_row) * (CARD_H_MM * mm + gap_mm * mm))
                     (CARD_W_MM * mm) (CARD_H_MM * mm) (5 * mm) e))"
proof -
  define L where "L = plan_locals (pw, ph) gap_mm True bb (rows, cols, x0, y0, rot)"
  define cell where "cell = (\<lambda>(grid_row, grid_col).
      tl (draw_crop_marks (x0 + of_int grid_col * (CARD_W_MM * mm + gap_mm * mm))
            (y0 + of_int (rows - 1 - grid_row) * (CARD_H_MM * mm + gap_mm * mm))
            (CARD_W_MM * mm) (CARD_H_MM * mm) (5 * mm) (0 * mm)))"
  from compute_grid_pos [OF grid] have r: "1 \<le> l_rows L" and c: "1 \<le> l_cols L"
    by (simp_all add: L_def plan_locals_simps)
  from compute_grid_pos [OF grid] have K: "0 < nat (rows * cols)" by simp
  from run_facts [OF grid, of loads imgs out True bb] obtain effs where
    m: "make_pdf loads imgs out (pw, ph) margin_mm gap_mm True orient bb
        = (effs, Inr (rows, cols, rows * cols))"
    and n: "n_pages effs = Suc ((length imgs - 1) div nat (rows * cols))"
    and q: "\<And>p. filter is_line (page_effects p effs)
                = (if p * nat (rows * cols) < length imgs
                   then filter is_line (page_start L 0) else [])"
    unfolding L_def by blast
  have s: "filter is_line (page_start L 0) = filter is_line (all_crop_marks L)"
    using page_start_0_plain [of L] by (simp add: L_def plan_locals_simps)
  have a: "filter is_line (all_crop_marks L)
           = concat (map cell (List.product [0..rows - 1] [0..cols - 1]))"
    unfolding crop_lines cell_def
    by (simp add: L_def plan_locals_simps l_dx_def l_dy_def l_w_def l_h_def)
  have b: "int (length (filter is_line (all_crop_marks L))) = 8 * (rows * cols)"
    using crop_lines_length [OF r c] by (simp add: L_def plan_locals_simps)
  have k: "(0::rat) \<le> 5 * mm" by (simp add: mm_def cm_def inch_def)
  have cm: "\<exists>grid_row \<in> {0..rows - 1}. \<exists>grid_col \<in> {0..cols - 1}.
              corner_mark (x0 + of_int grid_col * (CARD_W_MM * mm + gap_mm * mm))
                (y0 + of_int (rows - 1 - grid_row) * (CARD_H_MM * mm + gap_mm * mm))
                (CARD_W_MM * mm) (CARD_H_MM * mm) (5 * mm) e"
    if "e \<in> set (filter is_line (all_crop_marks L))" for e
  proof -
    from that obtain grid_row grid_col where
      rc: "grid_row \<in> {0..rows - 1}" "grid_col \<in> {0..cols - 1}"
      and e: "e \<in> set (cell (grid_row, grid_col))"
      unfolding a by auto
    from e have "corner_mark (x0 + of_int grid_col * (CARD_W_MM * mm + gap_mm * mm))
                (y0 + of_int (rows - 1 - grid_row) * (CARD_H_MM * mm + gap_mm * mm))
                (CARD_W_MM * mm) (CARD_H_MM * mm) (5 * mm) e"
      unfolding cell_def by (simp only: prod.case) (rule cell_lines_corner [OF k])
    with rc show ?thesis by blast
  qed
  have a': "concat (map cell (List.product [0..rows - 1] [0..cols - 1]))
            = concat (map (\<lambda>(grid_row, grid_col).
                    (let x = x0 + of_int grid_col * (CARD_W_MM * mm + gap_mm * mm);
                         y = y0 + of_int (rows - 1 - grid_row) * (CARD_H_MM * mm + gap_mm * mm);
                         w = CARD_W_MM * mm; h = CARD_H_MM * mm; k = 5 * mm
                     in [Line (x - k) y x y, Line x (y - k) x y,
                         Line (x + w) y (x + w + k) y, Line (x + w) (y - k) (x + w) y,
                         Line (x - k) (y + h) x (y + h), Line x (y + h) x (y + h + k),
                         Line (x + w) (y + h) (x + w + k) (y + h),
                         Line (x + w) (y + h) (x + w) (y + h + k)]))
                    (List.product [0..rows - 1] [0..cols - 1]))"
    unfolding cell_def cell_lines Let_def ..
  have e: "filter is_line (page_effects p effs) = filter is_line (all_crop_marks L)"
    if "p < n_pages effs" for p
  proof -
    from that n have "p \<le> (length imgs - 1) div nat (rows * cols)" by simp
    with K have "p * nat (rows * cols) \<le> length imgs - 1"
      by (simp add: less_eq_div_iff_mult_less_eq)
    with ne have "p * nat (rows * cols) < length imgs"
      by (cases imgs) simp_all
    with q [of p] s show ?thesis by simp
  qed
  show ?thesis
  proof (intro exI [of _ effs] conjI allI impI)
    show "make_pdf loads imgs out (pw, ph) margin_mm gap_mm True orient bb
          = (effs, Inr (rows, cols, rows * cols))" by (rule m)
    show "n_pages effs = Suc ((length imgs - 1) div nat (rows * cols))" by (rule n)
  next
    fix p assume p: "p < n_pages effs"
    show "filter is_line (page_effects p effs)
                = concat (map (\<lambda>(grid_row, grid_col).
                    (let x = x0 + of_int grid_col * (CARD_W_MM * mm + gap_mm * mm);
                         y = y0 + of_int (rows - 1 - grid_row) * (CARD_H_MM * mm + gap_mm * mm);
                         w = CARD_W_MM * mm; h = CARD_H_MM * mm; k = 5 * mm
                     in [Line (x - k) y x y, Line x (y - k) x y,
                         Line (x + w) y (x + w + k) y, Line (x + w) (y - k) (x + w) y,
                         Line (x - k) (y + h) x (y + h), Line x (y + h) x (y + h + k),
                         Line (x + w) (y + h) (x + w + k) (y + h),
                         Line (x + w) (y + h) (x + w) (y + h + k)]))
                    (List.product [0..rows - 1] [0..cols - 1]))"
      unfolding e [OF p] a by (rule a')
    show "int (length (filter is_line (page_effects p effs))) = 8 * (rows * cols)"
      unfolding e [OF p] by (rule b)
    show "\<forall>e \<in> set (filter is_line (page_effects p effs)).
                 \<exists>grid_row \<in> {0..rows - 1}. \<exists>grid_col \<in> {0..cols - 1}.
                   corner_mark (x0 + of_int grid_col * (CARD_W_MM * mm + gap_mm * mm))
                     (y0 + of_int (rows - 1 - grid_row) * (CARD_H_MM * mm + gap_mm * mm))
                     (CARD_W_MM * mm) (CARD_H_MM * mm) (5 * mm) e"
      unfolding e [OF p] using cm by blast
  qed
qed

text \<open>
  Ten images on an A4 page: the second page holds one image and the marks of nine cells,
  72 lines, of which the first is the horizontal mark at the lower left corner of the
  first cell of the top row.
\<close>

theorem crop_marks_every_page_witness:
  "compute_grid (210 * mm) (297 * mm) 5 3 Auto = Inr (3, 3, 2700 / 127, 4860 / 127, False) \<and>
   (\<exists>effs.
      make_pdf top [''01.png'', ''02.png'', ''03.png'', ''04.png'', ''05.png'', ''06.png'',
                    ''07.png'', ''08.png'', ''09.png'', ''10.png'']
               ''cards_print.pdf'' (210 * mm, 297 * mm) 5 3 True Auto False
        = (effs, Inr (3, 3, 3 * 3)) \<and>
      n_pages effs = 2 \<and>
      int (length (filter is_line (page_effects 1 effs))) = 8 * (3 * 3) \<and>
      hd (filter is_line (page_effects 1 effs))
        = Line (900 / 127) (70380 / 127) (2700 / 127) (70380 / 127) \<and>
      corner_mark (2700 / 127) (70380 / 127) (CARD_W_MM * mm) (CARD_H_MM * mm) (5 * mm)
        (hd (filter is_line (page_effects 1 effs))))"
proof -
  define imgs where "imgs = [''01.png'', ''02.png'', ''03.png'', ''04.png'', ''05.png'',
    ''06.png'', ''07.png'', ''08.png'', ''09.png'', ''10.png'']"
  have g: "compute_grid (210 * mm) (297 * mm) 5 3 Auto
           = Inr (3, 3, 2700 / 127, 4860 / 127, False)" by code_simp
  have ne: "imgs \<noteq> []" and len: "length imgs = 10" by (simp_all add: imgs_def)
  from crop_marks_every_page [OF g ne, of top "''cards_print.pdf''" False] obtain effs where
    m: "make_pdf top imgs ''cards_print.pdf'' (210 * mm, 297 * mm) 5 3 True Auto False
        = (effs, Inr (3, 3, 3 * 3))"
    and n: "n_pages effs = Suc ((length imgs - 1) div nat (3 * 3))"
    and q: "\<forall>p < n_pages effs.
              filter is_line (page_effects p effs)
                = concat (map (\<lambda>(grid_row, grid_col).
                    (let x = 2700 / 127 + of_int grid_col * (CARD_W_MM * mm + 3 * mm);
                         y = 4860 / 127 + of_int (3 - 1 - grid_row) * (CARD_H_MM * mm + 3 * mm);
                         w = CARD_W_MM * mm; h = CARD_H_MM * mm; k = 5 * mm
                     in [Line (x - k) y x y, Line x (y - k) x y,
                         Line (x + w) y (x + w + k) y, Line (x + w) (y - k) (x + w) y,
                         Line (x - k) (y + h) x (y + h), Line x (y + h) x (y + h + k),
                         Line (x + w) (y + h) (x + w + k) (y + h),
                         Line (x + w) (y + h) (x + w) (y + h + k)]))
                    (List.product [0..3 - 1] [0..3 - 1])) \<and>
              int (length (filter is_line (page_effects p effs))) = 8 * (3 * 3)"
    by blast
  from n len have n2: "n_pages effs = 2" by simp
  then have lt: "1 < n_pages effs" by simp
  note qp = q [rule_format, OF lt]
  from qp have l: "int (length (filter is_line (page_effects 1 effs))) = 8 * (3 * 3)"
    by (rule conjunct2)
  from qp have f: "filter is_line (page_effects 1 effs)
            = concat (map (\<lambda>(grid_row, grid_col).
                    (let x = 2700 / 127 + of_int grid_col * (CARD_W_MM * mm + 3 * mm);
                         y = 4860 / 127 + of_int (3 - 1 - grid_row) * (CARD_H_MM * mm + 3 * mm);
                         w = CARD_W_MM * mm; h = CARD_H_MM * mm; k = 5 * mm
                     in [Line (x - k) y x y, Line x (y - k) x y,
                         Line (x + w) y (x + w + k) y, Line (x + w) (y - k) (x + w) y,
                         Line (x - k) (y + h) x (y + h), Line x (y + h) x (y + h + k),
                         Line (x + w) (y + h) (x + w + k) (y + h),
                         Line (x + w) (y + h) (x + w) (y + h + k)]))
                    (List.product [0..3 - 1] [0..3 - 1]))"
    by (rule conjunct1)
  have h: "hd (concat (map (\<lambda>(grid_row, grid_col).
                    (let x = 2700 / 127 + of_int grid_col * (CARD_W_MM * mm + 3 * mm);
                         y = 4860 / 127 + of_int (3 - 1 - grid_row) * (CARD_H_MM * mm + 3 * mm);
                         w = CARD_W_MM * mm; h = CARD_H_MM * mm; k = 5 * mm
                     in [Line (x - k) y x y, Line x (y - k) x y,
                         Line (x + w) y (x + w + k) y, Line (x + w) (y - k) (x + w) y,
                         Line (x - k) (y + h) x (y + h), Line x (y + h) x (y + h + k),
                         Line (x + w) (y + h) (x + w + k) (y + h),
                         Line (x + w) (y + h) (x + w) (y + h + k)]))
                    (List.product [0..3 - 1] [0..3 - 1])))
           = Line (900 / 127) (70380 / 127) (2700 / 127) (70380 / 127)"
    by code_simp
  have c: "corner_mark (2700 / 127) (70380 / 127) (CARD_W_MM * mm) (CARD_H_MM * mm) (5 * mm)
             (Line (900 / 127) (70380 / 127) (2700 / 127) (70380 / 127))"
    by code_simp
  from f h have h': "hd (filter is_line (page_effects 1 effs))
                     = Line (900 / 127) (70380 / 127) (2700 / 127) (70380 / 127)" by simp
  from m n2 l h' c have "\<exists>effs. make_pdf top imgs ''cards_print.pdf'' (210 * mm, 297 * mm) 5 3 True Auto False
        = (effs, Inr (3, 3, 3 * 3)) \<and> n_pages effs = 2 \<and>
      int (length (filter is_line (page_effects 1 effs))) = 8 * (3 * 3) \<and>
      hd (filter is_line (page_effects 1 effs))
        = Line (900 / 127) (70380 / 127) (2700 / 127) (70380 / 127) \<and>
      corner_mark (2700 / 127) (70380 / 127) (CARD_W_MM * mm) (CARD_H_MM * mm) (5 * mm)
        (hd (filter is_line (page_effects 1 effs)))" by auto
  with g show ?thesis unfolding imgs_def by blast
qed

subsection \<open>The whole run\<close>

lemma main_eq:
  assumes paper: "paper_size_of U (a_paper a) = Inr (pw, ph)"
      and ne: "imgs \<noteq> []"
      and mk: "make_pdf loads imgs (a_out a) (pw, ph) (a_margin_mm a) (a_gap_mm a)
                 (a_cropmarks a) (a_orientation a) (a_black_borders a)
               = (effs, Inr (rows, cols, pp))"
  shows "main U loads imgs a
         = (effs @ [Print (report (int (length imgs)) (a_out a) rows cols pp
                            (page_count (int (length imgs)) pp))],
            Inr ())"
  using assms by (simp add: main_def Let_def)



subsection \<open>Ten images on A4\<close>

lemma report_a4:
  "report 10 out 3 3 9 2
   = ''Done: 10 images '' @ [CHR 0xE2, CHR 0x86, CHR 0x92] @ '' '' @ out
     @ '' | 3*3 per page (9/page), 2 pages.''"
proof -
  have "str_int 10 = ''10''" "str_int 3 = ''3''" "str_int 9 = ''9''" "str_int 2 = ''2''"
    by code_simp+
  then show ?thesis by (simp add: report_def)
qed

text \<open>
  C4, as amended. The claim as stated fails: four rows of 88 mm do not fit into the 297 mm
  of an A4 page. With ten images, A4 paper, a margin of 5 mm, a gap of 3 mm and
  orientation auto, the engine plans a grid of 3 rows and 3 columns (9 cards per page) in
  portrait orientation (the landscape candidate holds 8), the document has two pages,
  and the report reads \<open>10 images ... 3*3 per page (9/page), 2 pages.\<close>
\<close>

theorem a4_ten_images:
  assumes len: "length imgs = 10"
  shows "\<exists>effs.
           main U loads imgs
             \<lparr>a_paper = codes ''a4'', a_out = out, a_margin_mm = 5, a_gap_mm = 3,
              a_cropmarks = cropm, a_black_borders = bb, a_orientation = Auto\<rparr>
             = (effs @ [Print (''Done: 10 images '' @ [CHR 0xE2, CHR 0x86, CHR 0x92] @ '' ''
                               @ out @ '' | 3*3 per page (9/page), 2 pages.'')],
                Inr ()) \<and>
           make_pdf loads imgs out A4 5 3 cropm Auto bb = (effs, Inr (3, 3, 9)) \<and>
           n_pages effs = 2 \<and>
           compute_grid (fst A4) (snd A4) 5 3 Auto = Inr (3, 3, 2700 / 127, 4860 / 127, False) \<and>
           compute_grid (fst A4) (snd A4) 5 3 Landscape
             = Inr (2, 4, 6480 / 127, 5580 / 127, True)"
proof -
  define a where "a = \<lparr>a_paper = codes ''a4'', a_out = out, a_margin_mm = 5, a_gap_mm = 3,
    a_cropmarks = cropm, a_black_borders = bb, a_orientation = Auto\<rparr>"
  have A4: "A4 = (210 * mm, 297 * mm)" by (simp add: A4_def)
  have "paper_size_of U (codes ''a4'') = Inr (210 * mm, 297 * mm)"
    by (simp add: paper_size_of_def lower_def strip_def codes_def isspace_def lower_latin1_def
          PAPERS_def A4_def)
  then have paper: "paper_size_of U (a_paper a) = Inr (210 * mm, 297 * mm)"
    by (simp add: a_def)
  have g: "compute_grid (210 * mm) (297 * mm) 5 3 Auto
           = Inr (3, 3, 2700 / 127, 4860 / 127, False)" by code_simp
  have gl: "compute_grid (210 * mm) (297 * mm) 5 3 Landscape
            = Inr (2, 4, 6480 / 127, 5580 / 127, True)" by code_simp
  from len have ne: "imgs \<noteq> []" by auto
  from run_facts [OF g, of loads imgs out cropm bb] obtain effs where
    m: "make_pdf loads imgs out (210 * mm, 297 * mm) 5 3 cropm Auto bb
        = (effs, Inr (3, 3, 3 * 3))"
    and n: "n_pages effs = Suc ((length imgs - 1) div nat (3 * 3))"
    by blast
  from m have m': "make_pdf loads imgs (a_out a) (210 * mm, 297 * mm) (a_margin_mm a) (a_gap_mm a)
                     (a_cropmarks a) (a_orientation a) (a_black_borders a)
                   = (effs, Inr (3, 3, 9))"
    by (simp add: a_def)
  have c: "page_count 10 9 = 2" by code_simp
  from main_eq [OF paper ne m'] len
  have "main U loads imgs a = (effs @ [Print (report 10 out 3 3 9 2)], Inr ())"
    by (simp add: c a_def)
  then have r: "main U loads imgs a
      = (effs @ [Print (''Done: 10 images '' @ [CHR 0xE2, CHR 0x86, CHR 0x92] @ '' ''
                        @ out @ '' | 3*3 per page (9/page), 2 pages.'')], Inr ())"
    unfolding report_a4 .
  from n len have n2: "n_pages effs = 2" by simp
  from m have m2: "make_pdf loads imgs out A4 5 3 cropm Auto bb = (effs, Inr (3, 3, 9))"
    by (simp add: A4)
  from r m2 n2 g gl show ?thesis unfolding a_def A4 by auto
qed

text \<open>Ten image files, all of which load.\<close>

theorem a4_ten_images_witness:
  "length [''01.png'', ''02.png'', ''03.png'', ''04.png'', ''05.png'', ''06.png'',
           ''07.png'', ''08.png'', ''09.png'', ''10.png''] = 10 \<and>
   (\<exists>effs.
      main sample_unicode top [''01.png'', ''02.png'', ''03.png'', ''04.png'', ''05.png'', ''06.png'',
                ''07.png'', ''08.png'', ''09.png'', ''10.png'']
        \<lparr>a_paper = codes ''a4'', a_out = ''cards_print.pdf'', a_margin_mm = 5, a_gap_mm = 3,
         a_cropmarks = False, a_black_borders = False, a_orientation = Auto\<rparr>
        = (effs @ [Print (''Done: 10 images '' @ [CHR 0xE2, CHR 0x86, CHR 0x92]
                          @ '' cards_print.pdf | 3*3 per page (9/page), 2 pages.'')],
           Inr ()) \<and>
      n_pages effs = 2)"
proof -
  define imgs where "imgs = [''01.png'', ''02.png'', ''03.png'', ''04.png'', ''05.png'',
    ''06.png'', ''07.png'', ''08.png'', ''09.png'', ''10.png'']"
  have len: "length imgs = 10" by (simp add: imgs_def)
  from a4_ten_images [OF len, of sample_unicode top "''cards_print.pdf''" False False] obtain effs where
    "main sample_unicode top imgs
        \<lparr>a_paper = codes ''a4'', a_out = ''cards_print.pdf'', a_margin_mm = 5, a_gap_mm = 3,
         a_cropmarks = False, a_black_borders = False, a_orientation = Auto\<rparr>
        = (effs @ [Print (''Done: 10 images '' @ [CHR 0xE2, CHR 0x86, CHR 0x92] @ '' ''
                          @ ''cards_print.pdf'' @ '' | 3*3 per page (9/page), 2 pages.'')],
           Inr ())"
    and "n_pages effs = 2" by blast
  then have "\<exists>effs. main sample_unicode top imgs
        \<lparr>a_paper = codes ''a4'', a_out = ''cards_print.pdf'', a_margin_mm = 5, a_gap_mm = 3,
         a_cropmarks = False, a_black_borders = False, a_orientation = Auto\<rparr>
        = (effs @ [Print (''Done: 10 images '' @ [CHR 0xE2, CHR 0x86, CHR 0x92]
                          @ '' cards_print.pdf | 3*3 per page (9/page), 2 pages.'')],
           Inr ()) \<and> n_pages effs = 2"
    by auto
  with len show ?thesis unfolding imgs_def by blast
qed

text \<open>
  The grid of the scenario has three rows, not four, nine cells and not twelve, and ten
  images need two pages.
\<close>

theorem a4_grid_is_3x3:
  "compute_grid (fst A4) (snd A4) 5 3 Auto = Inr (3, 3, 2700 / 127, 4860 / 127, False) \<and>
   snd (make_pdf top [''01.png'', ''02.png'', ''03.png'', ''04.png'', ''05.png'', ''06.png'',
                      ''07.png'', ''08.png'', ''09.png'', ''10.png'']
                 ''cards_print.pdf'' A4 5 3 False Auto False)
     = Inr (3, 3, 9) \<and>
   page_count 10 9 = 2"
  by code_simp

end

